theory Spec2Isabelle
  imports Main
begin

section \<open>Python primitives used by the ETL scripts\<close>

text \<open>
  Strings are byte strings. The two exceptions that the loader's own expressions can raise
  are \<open>IndexError\<close> (subscripting an empty list) and \<open>ValueError\<close> (\<open>int\<close> of a
  string that is no integer literal).
\<close>

datatype py_error = IndexError | ValueError

text \<open>
  The characters that \<open>str.split()\<close> treats as white space, restricted to ASCII: tab,
  line feed, vertical tab, form feed, carriage return, the four separators 0x1C to 0x1F,
  and the blank.
\<close>

definition is_space :: "char \<Rightarrow> bool" where
  "is_space c = (c \<in> set [CHR 0x09, CHR 0x0A, CHR 0x0B, CHR 0x0C, CHR 0x0D,
                           CHR 0x1C, CHR 0x1D, CHR 0x1E, CHR 0x1F, CHR 0x20])"

text \<open>\<open>xs[0]\<close> and \<open>xs[-1]\<close>: both raise \<open>IndexError\<close> on the empty list.\<close>

definition item_first :: "'a list \<Rightarrow> py_error + 'a" where
  "item_first xs = (case xs of [] \<Rightarrow> Inl IndexError | x # _ \<Rightarrow> Inr x)"

definition item_last :: "'a list \<Rightarrow> py_error + 'a" where
  "item_last xs = (if xs = [] then Inl IndexError else Inr (last xs))"

text \<open>
  \<open>s.split(sep)\<close> for a separator of one character: the pieces between the separators,
  empty pieces kept, so the result is never empty.
\<close>

fun split_on :: "char \<Rightarrow> string \<Rightarrow> string list" where
  "split_on sep [] = [[]]"
| "split_on sep (c # cs) =
     (if c = sep then [] # split_on sep cs
      else (case split_on sep cs of
              [] \<Rightarrow> [[c]]
            | w # ws \<Rightarrow> (c # w) # ws))"

text \<open>
  \<open>s.split()\<close> with no argument: skip white space, stop at the end of the string, take
  the run of other characters as the next token, and go on behind it. A string of white
  space only gives the empty list.
\<close>

function split_ws :: "string \<Rightarrow> string list" where
  "split_ws s =
     (if dropWhile is_space s = [] then []
      else takeWhile (\<lambda>c. \<not> is_space c) (dropWhile is_space s)
           # split_ws (dropWhile (\<lambda>c. \<not> is_space c) (dropWhile is_space s)))"
  by pat_completeness auto
termination
proof (relation "measure length")
  show "wf (measure length)" by simp
next
  fix s :: string
  assume ne: "dropWhile is_space s \<noteq> []"
  then obtain c r where cr: "dropWhile is_space s = c # r"
    by (cases "dropWhile is_space s") auto
  have "\<not> is_space c"
    using cr hd_dropWhile [of is_space s] by auto
  then have "length (dropWhile (\<lambda>c. \<not> is_space c) (c # r)) \<le> length r"
    by (simp add: length_dropWhile_le)
  also have "length r < length (dropWhile is_space s)"
    by (simp add: cr)
  also have "\<dots> \<le> length s"
    by (rule length_dropWhile_le)
  finally show "(dropWhile (\<lambda>c. \<not> is_space c) (dropWhile is_space s), s) \<in> measure length"
    by (simp add: cr)
qed

declare split_ws.simps [simp del]

text \<open>
  \<open>s.replace(old, new)\<close>: a scan from the left that replaces every occurrence of
  \<open>old\<close> it meets and resumes behind it, so occurrences never overlap. For the empty
  \<open>old\<close> Python puts \<open>new\<close> before every character and at the end.
\<close>

function replace :: "string \<Rightarrow> string \<Rightarrow> string \<Rightarrow> string" where
  "replace old new [] = (if old = [] then new else [])"
| "replace old new (c # cs) =
     (if old = [] then new @ c # replace old new cs
      else if take (length old) (c # cs) = old
           then new @ replace old new (drop (length old) (c # cs))
           else c # replace old new cs)"
  by pat_completeness auto
termination
  by (relation "measure (\<lambda>(old, new, s). length s)") (auto simp: neq_Nil_conv)

text \<open>
  \<open>int(s)\<close> for a string, base ten: white space is stripped at both ends, one sign is
  allowed, then come decimal digits, where a single underscore may stand between two
  digits. Anything else raises \<open>ValueError\<close>. For an ASCII string the white space of
  \<open>int\<close> is that of C, without the four separators 0x1C to 0x1F. (The interpreter's
  limit on the number of digits of very long literals is not part of the model, and neither
  are digits and white space outside ASCII.)
\<close>

definition is_c_space :: "char \<Rightarrow> bool" where
  "is_c_space c = (c \<in> set [CHR 0x09, CHR 0x0A, CHR 0x0B, CHR 0x0C, CHR 0x0D, CHR 0x20])"

definition is_digit :: "char \<Rightarrow> bool" where
  "is_digit c = (48 \<le> (of_char c :: nat) \<and> (of_char c :: nat) \<le> 57)"

definition digit_val :: "char \<Rightarrow> int" where
  "digit_val c = int (of_char c) - 48"

fun digits_from :: "int \<Rightarrow> string \<Rightarrow> int option" where
  "digits_from acc [] = Some acc"
| "digits_from acc [c] = (if is_digit c then Some (10 * acc + digit_val c) else None)"
| "digits_from acc (c # d # ds) =
     (if is_digit c then digits_from (10 * acc + digit_val c) (d # ds)
      else if c = CHR ''_'' \<and> is_digit d then digits_from (10 * acc + digit_val d) ds
      else None)"

definition strip_c_space :: "string \<Rightarrow> string" where
  "strip_c_space s = rev (dropWhile is_c_space (rev (dropWhile is_c_space s)))"

definition unsigned_int :: "string \<Rightarrow> py_error + int" where
  "unsigned_int s =
     (case s of
        [] \<Rightarrow> Inl ValueError
      | d # ds \<Rightarrow>
          if is_digit d
          then (case digits_from (digit_val d) ds of
                  None \<Rightarrow> Inl ValueError
                | Some n \<Rightarrow> Inr n)
          else Inl ValueError)"

definition int_of_str :: "string \<Rightarrow> py_error + int" where
  "int_of_str s =
     (case strip_c_space s of
        [] \<Rightarrow> Inl ValueError
      | c # cs \<Rightarrow>
          if c = CHR ''-'' then map_sum id uminus (unsigned_int cs)
          else if c = CHR ''+'' then unsigned_int cs
          else unsigned_int (c # cs))"

text \<open>
  The headers of a parsed game are a mapping from tag names to strings;
  \<open>headers.get(key, default)\<close> is \<open>hget\<close>.
\<close>

type_synonym headers = "string \<rightharpoonup> string"

definition hget :: "headers \<Rightarrow> string \<Rightarrow> string \<Rightarrow> string" where
  "hget h k dflt = (case h k of None \<Rightarrow> dflt | Some v \<Rightarrow> v)"

section \<open>The relational store\<close>

text \<open>
  The three tables the loader writes, each a list of rows in insertion order. The data
  definition of the tables is not among the sources; the columns are those the SQL
  statements of \<open>load.py\<close> name, with the values Python passes for them, and every
  statement is taken to be accepted by the store. The uniqueness of \<open>username\<close>,
  \<open>eco\<close> and \<open>game_id\<close> is what the \<open>ON CONFLICT\<close> clauses of the statements
  rely on.
\<close>

record player_row =
  player_id :: nat
  username :: string
  highest_rating :: int

record opening_row =
  opening_id :: nat
  eco :: string
  name :: string
  family :: string

text \<open>
  A row of \<open>games\<close>, which is also the \<open>game_dict\<close> of \<open>process_pgn\<close>. The column
  \<open>termination\<close> is \<open>termination_reason\<close> here and the foreign key \<open>opening_id\<close> is
  \<open>opening_ref\<close>, since the first is a keyword and the second already names the key of
  \<open>openings\<close>.
\<close>

record game_row =
  game_id :: string
  played_at :: string
  white_id :: nat
  black_id :: nat
  white_rating :: int
  black_rating :: int
  winner :: string
  termination_reason :: string
  ply_count :: nat
  opening_ref :: nat
  rating_diff :: int

text \<open>
  Modelled from the spec: the schema that generates \<open>player_id\<close> and \<open>opening_id\<close> is
  missing from the sources. The spec calls them durable identifiers of the rows; here each
  table has a counter that gives the identifier of the next inserted row.
\<close>

record db =
  players :: "player_row list"
  openings :: "opening_row list"
  games :: "game_row list"
  player_seq :: nat
  opening_seq :: nat

section \<open>load.py\<close>

text \<open>
  \<open>upsert_player\<close>: insert the row, or on a conflict on \<open>username\<close> set
  \<open>highest_rating\<close> to the greatest of the stored and the incoming value; return the
  row's \<open>player_id\<close>.
\<close>

definition upsert_player :: "db \<Rightarrow> string \<Rightarrow> int \<Rightarrow> nat \<times> db" where
  "upsert_player d u rating =
     (case find (\<lambda>row. username row = u) (players d) of
        Some old \<Rightarrow>
          (player_id old,
           d\<lparr>players :=
                map (\<lambda>row. if username row = u
                            then row\<lparr>highest_rating := max (highest_rating row) rating\<rparr>
                            else row)
                    (players d)\<rparr>)
      | None \<Rightarrow>
          (player_seq d,
           d\<lparr>players :=
                players d @ [\<lparr>player_id = player_seq d, username = u, highest_rating = rating\<rparr>],
              player_seq := Suc (player_seq d)\<rparr>))"

text \<open>
  The family of an opening name, the first statement of \<open>upsert_opening\<close>:
  \<open>name.split(":")[0] if ":" in name else name.split()[0]\<close>.
\<close>

definition family_of :: "string \<Rightarrow> py_error + string" where
  "family_of nm =
     (if CHR '':'' \<in> set nm then item_first (split_on CHR '':'' nm)
      else item_first (split_ws nm))"

text \<open>
  \<open>upsert_opening\<close>: the family is computed first, then the row is inserted, or on a
  conflict on \<open>eco\<close> only \<open>name\<close> is set to the incoming value; the row's
  \<open>opening_id\<close> is returned.
\<close>

definition upsert_opening :: "db \<Rightarrow> string \<Rightarrow> string \<Rightarrow> py_error + (nat \<times> db)" where
  "upsert_opening d e nm =
     (case family_of nm of
        Inl err \<Rightarrow> Inl err
      | Inr fam \<Rightarrow>
          (case find (\<lambda>row. eco row = e) (openings d) of
             Some old \<Rightarrow>
               Inr (opening_id old,
                    d\<lparr>openings :=
                         map (\<lambda>row. if eco row = e then row\<lparr>name := nm\<rparr> else row)
                             (openings d)\<rparr>)
           | None \<Rightarrow>
               Inr (opening_seq d,
                    d\<lparr>openings :=
                         openings d @ [\<lparr>opening_id = opening_seq d, eco = e, name = nm, family = fam\<rparr>],
                       opening_seq := Suc (opening_seq d)\<rparr>)))"

text \<open>\<open>insert_game\<close>: insert the row; on a conflict on \<open>game_id\<close> do nothing.\<close>

definition insert_game :: "db \<Rightarrow> game_row \<Rightarrow> db" where
  "insert_game d g =
     (if \<exists>row \<in> set (games d). game_id row = game_id g then d
      else d\<lparr>games := games d @ [g]\<rparr>)"

text \<open>
  The expressions of the loop body of \<open>process_pgn\<close>.
  \<open>int(headers.get(key, 0))\<close>: the default is the number 0, a header that is present is a
  string and goes through \<open>int\<close>.
\<close>

definition rating_of :: "headers \<Rightarrow> string \<Rightarrow> py_error + int" where
  "rating_of h k = (case h k of None \<Rightarrow> Inr 0 | Some v \<Rightarrow> int_of_str v)"

text \<open>
  \<open>headers.get("Result", "*").replace("1-0", "white").replace("0-1", "black")
  .replace("1/2-1/2", "draw")\<close>
\<close>

definition map_result :: "string \<Rightarrow> string" where
  "map_result r =
     replace ''1/2-1/2'' ''draw'' (replace ''0-1'' ''black'' (replace ''1-0'' ''white'' r))"

definition winner_of :: "headers \<Rightarrow> string" where
  "winner_of h = map_result (hget h ''Result'' ''*'')"

text \<open>\<open>headers.get("Site", "").split("/")[-1]\<close>\<close>

definition game_id_of :: "headers \<Rightarrow> py_error + string" where
  "game_id_of h = item_last (split_on CHR ''/'' (hget h ''Site'' []))"

text \<open>
  A game as the PGN parser returns it: its headers and the ply count of its final
  position (\<open>game.end().ply()\<close>). The parser itself is a library outside the sources.
\<close>

record pgn_game =
  headers :: headers
  end_ply :: nat

text \<open>
  The dictionary \<open>game_dict\<close> that the loop body builds from the headers, the ply count,
  the two ratings and the identifiers that the upserts returned.
\<close>

definition game_dict ::
  "pgn_game \<Rightarrow> nat \<Rightarrow> nat \<Rightarrow> nat \<Rightarrow> int \<Rightarrow> int \<Rightarrow> py_error + game_row" where
  "game_dict g oid wid bid wr br =
     (let h = headers g in
      case game_id_of h of
        Inl err \<Rightarrow> Inl err
      | Inr gid \<Rightarrow>
          Inr \<lparr>game_id = gid,
               played_at = hget h ''UTCDate'' ''1970.01.01'' @ '' '' @ hget h ''UTCTime'' ''00:00:00'',
               white_id = wid,
               black_id = bid,
               white_rating = wr,
               black_rating = br,
               winner = winner_of h,
               termination_reason = hget h ''Termination'' ''?'',
               ply_count = end_ply g,
               opening_ref = oid,
               rating_diff = \<bar>wr - br\<bar>\<rparr>)"

text \<open>
  One pass through the loop body, in the order of the source: the opening is upserted
  first, then the ratings are read, then both players are upserted, then the row is built
  and inserted. An exception leaves the loop at the statement that raises it.
\<close>

definition process_game :: "db \<Rightarrow> pgn_game \<Rightarrow> py_error + db" where
  "process_game d g =
     (let h = headers g in
      case upsert_opening d (hget h ''ECO'' ''?'') (hget h ''Opening'' ''Unknown'') of
        Inl err \<Rightarrow> Inl err
      | Inr (oid, d1) \<Rightarrow>
      case rating_of h ''WhiteElo'' of
        Inl err \<Rightarrow> Inl err
      | Inr wr \<Rightarrow>
      case rating_of h ''BlackElo'' of
        Inl err \<Rightarrow> Inl err
      | Inr br \<Rightarrow>
      case upsert_player d1 (hget h ''White'' ''?'') wr of (wid, d2) \<Rightarrow>
      case upsert_player d2 (hget h ''Black'' ''?'') br of (bid, d3) \<Rightarrow>
      case game_dict g oid wid bid wr br of
        Inl err \<Rightarrow> Inl err
      | Inr row \<Rightarrow> Inr (insert_game d3 row))"

text \<open>
  \<open>process_pgn\<close>: the loop over the games of the file, with the counter \<open>game_ct\<close>.
  The result is the store and the counter after the last game, or the exception that ended
  the run. (The progress lines printed every 1000 games are left out.)
\<close>

fun process_loop :: "db \<Rightarrow> nat \<Rightarrow> pgn_game list \<Rightarrow> py_error + (db \<times> nat)" where
  "process_loop d game_ct [] = Inr (d, game_ct)"
| "process_loop d game_ct (g # gs) =
     (case process_game d g of
        Inl err \<Rightarrow> Inl err
      | Inr d' \<Rightarrow> process_loop d' (game_ct + 1) gs)"

definition process_pgn :: "db \<Rightarrow> pgn_game list \<Rightarrow> py_error + (db \<times> nat)" where
  "process_pgn d gs = process_loop d 0 gs"

section \<open>collector.py\<close>

text \<open>
  What one call of \<open>client.games.export_by_user\<close> does: it raises the
  \<open>ResponseError\<close> that the \<open>try\<close> statement around the call catches, it raises some
  other exception, or it returns a stream. The loop then reads the stream, outside the
  \<open>try\<close> statement: the stream delivers records and then either ends or raises an
  exception (of any class), which nothing catches. The client is a library outside the
  sources, so the remote service is a parameter: a function from the user name to the
  outcome of the fetch.
\<close>

datatype fetch_outcome =
  Raises_ResponseError string
| Raises_other string
| Yields "string list" "string option"

text \<open>
  What a run leaves behind: the content of the file at \<open>out_path\<close> (\<open>None\<close> when there
  is no such file), the lines printed, and the exception that ended the run, if any.
\<close>

record run =
  out_file :: "string option"
  console :: "string list"
  raised :: "string option"

text \<open>
  The two lines the loop prints: \<open>f"Downloading games for {username}\<dots>"\<close>, whose last
  character is the ellipsis U+2026 (three bytes in UTF-8), and
  \<open>f"  ! API error for {username}: {exc}"\<close>.
\<close>

definition progress_line :: "string \<Rightarrow> string" where
  "progress_line u = ''Downloading games for '' @ u @ [CHR 0xE2, CHR 0x80, CHR 0xA6]"

definition error_line :: "string \<Rightarrow> string \<Rightarrow> string" where
  "error_line u exc = ''  ! API error for '' @ u @ '': '' @ exc"

text \<open>\<open>for pgn_line in stream: f_out.write(pgn_line + "\n")\<close>\<close>

definition write_lines :: "string list \<Rightarrow> string" where
  "write_lines stream = concat (map (\<lambda>pgn_line. pgn_line @ [CHR 0x0A]) stream)"

text \<open>
  The loop over the user names, inside the \<open>with\<close> block: \<open>f\<close> is what has been written
  to the open file so far, \<open>con\<close> the lines printed so far. An exception that the loop does
  not catch ends the run; the \<open>with\<close> block closes the file with what was written, the
  records read before the exception included.
\<close>

fun export_loop ::
  "(string \<Rightarrow> fetch_outcome) \<Rightarrow> string list \<Rightarrow> string \<Rightarrow> string list \<Rightarrow> run" where
  "export_loop remote [] f con = \<lparr>out_file = Some f, console = con, raised = None\<rparr>"
| "export_loop remote (u # us) f con =
     (case remote u of
        Raises_ResponseError exc \<Rightarrow>
          export_loop remote us f (con @ [progress_line u, error_line u exc])
      | Raises_other exc \<Rightarrow>
          \<lparr>out_file = Some f, console = con @ [progress_line u], raised = Some exc\<rparr>
      | Yields stream failure \<Rightarrow>
          (case failure of
             None \<Rightarrow> export_loop remote us (f @ write_lines stream) (con @ [progress_line u])
           | Some exc \<Rightarrow>
               \<lparr>out_file = Some (f @ write_lines stream), console = con @ [progress_line u],
                raised = Some exc\<rparr>))"

text \<open>
  \<open>export_games\<close>: without a token (unset or empty) the run ends with a
  \<open>RuntimeError\<close>. Then \<open>berserk.Client(token=token, timeout=60)\<close> builds the client;
  the library decides whether this call returns a client or raises, so it is the parameter
  \<open>new_client\<close>, and an exception of it ends the run. Both happen before the file is
  opened. Otherwise the file is opened in mode \<open>"w"\<close>, which creates it or empties it,
  the loop runs, and the last line is printed when the loop has come to its end.
  \<open>existing\<close> is the file as the run finds it.
\<close>

definition export_games ::
  "string option \<Rightarrow> (string \<Rightarrow> string + (string \<Rightarrow> fetch_outcome)) \<Rightarrow> string list \<Rightarrow> string \<Rightarrow>
   string option \<Rightarrow> run" where
  "export_games token new_client usernames out_path existing =
     (case token of
        None \<Rightarrow>
          \<lparr>out_file = existing, console = [],
           raised = Some ''LICHESS_API_TOKEN not set in environment or .env file''\<rparr>
      | Some tok \<Rightarrow>
          if tok = []
          then \<lparr>out_file = existing, console = [],
                raised = Some ''LICHESS_API_TOKEN not set in environment or .env file''\<rparr>
          else (case new_client tok of
                  Inl exc \<Rightarrow> \<lparr>out_file = existing, console = [], raised = Some exc\<rparr>
                | Inr remote \<Rightarrow>
                    (let r = export_loop remote usernames [] [] in
                     if raised r = None
                     then r\<lparr>console := console r @ [''Saved PGN to '' @ out_path]\<rparr>
                     else r)))"

section \<open>Notions used to state the properties\<close>

text \<open>\<open>old in s\<close>: the string \<open>old\<close> occurs in \<open>s\<close> as a substring.\<close>

fun occurs :: "string \<Rightarrow> string \<Rightarrow> bool" where
  "occurs old [] = (old = [])"
| "occurs old (c # cs) = (take (length old) (c # cs) = old \<or> occurs old cs)"

text \<open>The rating stored for a user name, if the user has a row.\<close>

definition stored_rating :: "db \<Rightarrow> string \<Rightarrow> int option" where
  "stored_rating d u = map_option highest_rating (find (\<lambda>row. username row = u) (players d))"

text \<open>A sequence of player upserts, one after the other.\<close>

definition upsert_players :: "db \<Rightarrow> (string \<times> int) list \<Rightarrow> db" where
  "upsert_players d ups = foldl (\<lambda>d' (u, r). snd (upsert_player d' u r)) d ups"

text \<open>
  For the outcome of a fetch: the exception with which it ends the run, if it does, and the
  records it delivers. For a list of user names: the records delivered for them, in the
  order received, and the lines the loop prints for them when none of them ends the run.
\<close>

definition aborts :: "fetch_outcome \<Rightarrow> string option" where
  "aborts outcome =
     (case outcome of
        Raises_ResponseError exc \<Rightarrow> None
      | Raises_other exc \<Rightarrow> Some exc
      | Yields stream failure \<Rightarrow> failure)"

definition records_of :: "fetch_outcome \<Rightarrow> string list" where
  "records_of outcome = (case outcome of Yields stream failure \<Rightarrow> stream | _ \<Rightarrow> [])"

definition streamed :: "(string \<Rightarrow> fetch_outcome) \<Rightarrow> string list \<Rightarrow> string list" where
  "streamed remote us = concat (map (\<lambda>u. records_of (remote u)) us)"

definition log_lines :: "(string \<Rightarrow> fetch_outcome) \<Rightarrow> string list \<Rightarrow> string list" where
  "log_lines remote us =
     concat (map (\<lambda>u. case remote u of
                         Raises_ResponseError exc \<Rightarrow> [progress_line u, error_line u exc]
                       | _ \<Rightarrow> [progress_line u]) us)"

text \<open>The identifiers of the games in the store.\<close>

definition loaded_ids :: "db \<Rightarrow> string set" where
  "loaded_ids d = game_id ` set (games d)"

subsection \<open>Example data\<close>

definition empty_db :: db where
  "empty_db = \<lparr>players = [], openings = [], games = [], player_seq = 0, opening_seq = 0\<rparr>"

definition db_one :: db where
  "db_one =
     \<lparr>players = [\<lparr>player_id = 0, username = ''alice'', highest_rating = 2200\<rparr>],
      openings = [\<lparr>opening_id = 0, eco = ''B90'', name = ''Sicilian Defense: Najdorf Variation'',
                   family = ''Sicilian Defense''\<rparr>],
      games = [], player_seq = 1, opening_seq = 1\<rparr>"

definition game_a :: pgn_game where
  "game_a =
     \<lparr>headers = [''Site'' \<mapsto> ''https://lichess.org/q7ZvsdUF'', ''White'' \<mapsto> ''alice'',
                 ''Black'' \<mapsto> ''bob'', ''WhiteElo'' \<mapsto> ''2200'', ''BlackElo'' \<mapsto> ''2100'',
                 ''Result'' \<mapsto> ''1-0'', ''ECO'' \<mapsto> ''B90'',
                 ''Opening'' \<mapsto> ''Sicilian Defense: Najdorf Variation''],
      end_ply = 61\<rparr>"

definition game_b :: pgn_game where
  "game_b =
     \<lparr>headers = [''Site'' \<mapsto> ''https://lichess.org/Xk3PqW0a'', ''White'' \<mapsto> ''alice'',
                 ''WhiteElo'' \<mapsto> ''2200'', ''Result'' \<mapsto> ''0-1'', ''ECO'' \<mapsto> ''A10'',
                 ''Opening'' \<mapsto> ''English Opening''],
      end_ply = 48\<rparr>"

definition game_c :: pgn_game where
  "game_c =
     \<lparr>headers = [''Site'' \<mapsto> ''https://lichess.org/Tn5cYb2e'', ''White'' \<mapsto> ''Anonymous'',
                 ''Black'' \<mapsto> ''bob'', ''WhiteElo'' \<mapsto> ''?'', ''BlackElo'' \<mapsto> ''2100'',
                 ''Result'' \<mapsto> ''1-0'', ''ECO'' \<mapsto> ''C20'',
                 ''Opening'' \<mapsto> ''King's Pawn Game''],
      end_ply = 12\<rparr>"

definition game_d :: pgn_game where
  "game_d = \<lparr>headers = [''Site'' \<mapsto> ''https://lichess.org/Hw9LmR4d''], end_ply = 30\<rparr>"

definition game_e :: pgn_game where
  "game_e =
     \<lparr>headers = [''Site'' \<mapsto> ''https://lichess.org/Bz2KfU7s'', ''White'' \<mapsto> ''alice'',
                 ''Black'' \<mapsto> ''bob'', ''WhiteElo'' \<mapsto> ''2200'', ''BlackElo'' \<mapsto> ''2100'',
                 ''Result'' \<mapsto> ''1/2-1/2'', ''ECO'' \<mapsto> ''A00'', ''Opening'' \<mapsto> []],
      end_ply = 80\<rparr>"

definition game_f :: pgn_game where
  "game_f =
     \<lparr>headers = [''Site'' \<mapsto> ''https://lichess.org/Rm6TgE1v'', ''White'' \<mapsto> ''alice'',
                 ''Black'' \<mapsto> ''bob'', ''WhiteElo'' \<mapsto> ''2200'', ''BlackElo'' \<mapsto> ''2100'',
                 ''Result'' \<mapsto> ''1/2-1/2'', ''ECO'' \<mapsto> ''A00'', ''Opening'' \<mapsto> ''  ''],
      end_ply = 80\<rparr>"

definition row_a :: game_row where
  "row_a =
     \<lparr>game_id = ''q7ZvsdUF'', played_at = ''2021.03.14 18:02:11'', white_id = 0, black_id = 1,
      white_rating = 2200, black_rating = 2100, winner = ''white'',
      termination_reason = ''Normal'', ply_count = 61, opening_ref = 0, rating_diff = 100\<rparr>"

definition example_remote :: "string \<Rightarrow> fetch_outcome" where
  "example_remote u =
     (if u = ''alice'' then Yields [''game1'', ''game2''] None
      else if u = ''bob'' then Raises_ResponseError ''HTTP 429''
      else if u = ''carol'' then Yields [''game3''] None
      else Raises_ResponseError ''HTTP 404'')"

definition flaky_remote :: "string \<Rightarrow> fetch_outcome" where
  "flaky_remote u =
     (if u = ''alice'' then Yields [''game1'', ''game2''] None
      else if u = ''bob'' then Raises_other ''timed out''
      else if u = ''carol'' then Yields [''game3''] None
      else if u = ''dave'' then Yields [''game4''] (Some ''HTTP 429'')
      else Raises_ResponseError ''HTTP 404'')"

definition example_client :: "string \<Rightarrow> string + (string \<Rightarrow> fetch_outcome)" where
  "example_client tok = Inr example_remote"

definition flaky_client :: "string \<Rightarrow> string + (string \<Rightarrow> fetch_outcome)" where
  "flaky_client tok = Inr flaky_remote"

definition broken_client :: "string \<Rightarrow> string + (string \<Rightarrow> fetch_outcome)" where
  "broken_client tok = Inl ''TypeError''"

section \<open>Auxiliary facts\<close>

lemma replace_absent: "\<not> occurs old s \<Longrightarrow> replace old new s = s"
  by (induction s) auto

lemma split_on_nonempty: "split_on sep s \<noteq> []"
  by (induction s) (auto split: list.splits)

lemma hd_split_on: "hd (split_on sep s) = takeWhile (\<lambda>c. c \<noteq> sep) s"
  by (induction s) (auto split: list.splits simp: split_on_nonempty)

lemma item_first_hd: "xs \<noteq> [] \<Longrightarrow> item_first xs = Inr (hd xs)"
  by (cases xs) (auto simp: item_first_def)

lemma family_of_colon:
  "CHR '':'' \<in> set nm \<Longrightarrow> family_of nm = Inr (takeWhile (\<lambda>c. c \<noteq> CHR '':'') nm)"
  by (simp add: family_of_def item_first_hd split_on_nonempty hd_split_on)

lemma dropWhile_space_nil: "(dropWhile is_space s = []) = (\<forall>c\<in>set s. is_space c)"
  by (induction s) auto

lemma family_of_token:
  "CHR '':'' \<notin> set nm \<Longrightarrow> \<exists>c\<in>set nm. \<not> is_space c \<Longrightarrow>
   family_of nm = Inr (takeWhile (\<lambda>c. \<not> is_space c) (dropWhile is_space nm))"
  unfolding family_of_def
  by (subst split_ws.simps) (auto simp: item_first_def dropWhile_space_nil)

lemma family_of_blank:
  "CHR '':'' \<notin> set nm \<Longrightarrow> \<forall>c\<in>set nm. is_space c \<Longrightarrow> family_of nm = Inl IndexError"
  unfolding family_of_def
  by (subst split_ws.simps) (auto simp: item_first_def dropWhile_space_nil)

lemma games_upsert_player: "games (snd (upsert_player d u r)) = games d"
  by (simp add: upsert_player_def split: option.splits)

lemma games_upsert_opening: "upsert_opening d e nm = Inr (oid, d1) \<Longrightarrow> games d1 = games d"
  by (auto simp: upsert_opening_def split: sum.splits option.splits)

lemma game_id_of_total: "game_id_of h = Inr (last (split_on CHR ''/'' (hget h ''Site'' [])))"
  by (simp add: game_id_of_def item_last_def split_on_nonempty)

lemma game_dict_fields:
  "game_dict g oid wid bid wr br = Inr row \<Longrightarrow>
     game_id_of (headers g) = Inr (game_id row) \<and> white_rating row = wr \<and>
     black_rating row = br \<and> rating_diff row = \<bar>wr - br\<bar> \<and> winner row = winner_of (headers g)"
  by (auto simp: game_dict_def Let_def split: sum.splits)

lemma game_dict_total: "\<exists>row. game_dict g oid wid bid wr br = Inr row"
  by (simp add: game_dict_def Let_def game_id_of_total)

text \<open>What a pass through the loop body has done when it ends without an exception.\<close>

lemma process_game_Inr:
  assumes "process_game d g = Inr d'"
  shows "\<exists>oid d1 wr br wid bid d3 row.
           upsert_opening d (hget (headers g) ''ECO'' ''?'')
             (hget (headers g) ''Opening'' ''Unknown'') = Inr (oid, d1) \<and>
           rating_of (headers g) ''WhiteElo'' = Inr wr \<and>
           rating_of (headers g) ''BlackElo'' = Inr br \<and>
           games d3 = games d \<and>
           game_dict g oid wid bid wr br = Inr row \<and>
           d' = insert_game d3 row"
proof -
  let ?h = "headers g"
  obtain oid d1 where
    o: "upsert_opening d (hget ?h ''ECO'' ''?'') (hget ?h ''Opening'' ''Unknown'') = Inr (oid, d1)"
    using assms by (auto simp: process_game_def Let_def split: sum.splits)
  obtain wr where w: "rating_of ?h ''WhiteElo'' = Inr wr"
    using assms o by (auto simp: process_game_def Let_def split: sum.splits)
  obtain br where b: "rating_of ?h ''BlackElo'' = Inr br"
    using assms o w by (auto simp: process_game_def Let_def split: sum.splits)
  define p2 where "p2 = upsert_player d1 (hget ?h ''White'' ''?'') wr"
  define p3 where "p3 = upsert_player (snd p2) (hget ?h ''Black'' ''?'') br"
  obtain row where r: "game_dict g oid (fst p2) (fst p3) wr br = Inr row"
    using game_dict_total by blast
  have d': "d' = insert_game (snd p3) row"
    using assms o w b r by (simp add: process_game_def Let_def p2_def p3_def split: prod.splits)
  have "games (snd p3) = games d"
    by (simp add: p3_def p2_def games_upsert_player games_upsert_opening [OF o])
  with o w b r d' show ?thesis by blast
qed

lemma find_append_single:
  "find P (xs @ [y]) = (case find P xs of Some x \<Rightarrow> Some x | None \<Rightarrow> if P y then Some y else None)"
  by (induction xs) auto

lemma find_players_map:
  "map_option highest_rating
     (find (\<lambda>row. username row = v)
        (map (\<lambda>row. if username row = u
                    then row\<lparr>highest_rating := max (highest_rating row) r\<rparr> else row) xs))
   = map_option (\<lambda>row. if v = u then max (highest_rating row) r else highest_rating row)
       (find (\<lambda>row. username row = v) xs)"
  by (induction xs) auto

text \<open>The rating stored for any user after one upsert.\<close>

lemma stored_rating_upsert:
  "stored_rating (snd (upsert_player d u r)) v =
     (if v = u then Some (case stored_rating d u of None \<Rightarrow> r | Some h \<Rightarrow> max h r)
      else stored_rating d v)"
proof (cases "find (\<lambda>row. username row = u) (players d)")
  case None
  then show ?thesis
    by (auto simp: stored_rating_def upsert_player_def find_append_single split: option.splits)
next
  case (Some old)
  then show ?thesis
    by (auto simp: stored_rating_def upsert_player_def find_players_map option.map_comp comp_def
             split: option.splits)
qed

lemma stored_rating_mono_step:
  "stored_rating d v = Some h \<Longrightarrow>
   \<exists>h'. stored_rating (snd (upsert_player d u r)) v = Some h' \<and> h \<le> h'"
  by (auto simp: stored_rating_upsert)

lemma stored_rating_mono:
  "stored_rating d v = Some h \<Longrightarrow> \<exists>h'. stored_rating (upsert_players d ups) v = Some h' \<and> h \<le> h'"
proof (induction ups arbitrary: d h)
  case Nil
  then show ?case by (simp add: upsert_players_def)
next
  case (Cons p ups)
  obtain u r where p: "p = (u, r)" by (cases p)
  from stored_rating_mono_step [OF Cons.prems, of u r] obtain h1 where
    h1: "stored_rating (snd (upsert_player d u r)) v = Some h1" "h \<le> h1" by blast
  from Cons.IH [OF h1(1)] obtain h' where
    "stored_rating (upsert_players (snd (upsert_player d u r)) ups) v = Some h'" "h1 \<le> h'"
    by blast
  with h1(2) show ?case by (auto simp: upsert_players_def p)
qed

lemma find_openings_map:
  "find (\<lambda>row. eco row = e) (map (\<lambda>row. if eco row = e then row\<lparr>name := nm\<rparr> else row) xs)
   = map_option (\<lambda>row. row\<lparr>name := nm\<rparr>) (find (\<lambda>row. eco row = e) xs)"
  by (induction xs) auto

lemma upsert_opening_total:
  "family_of nm = Inr fam \<Longrightarrow> \<exists>oid d1. upsert_opening d e nm = Inr (oid, d1)"
  by (simp add: upsert_opening_def split: option.splits)

lemma upsert_opening_fails:
  "family_of nm = Inl err \<Longrightarrow> upsert_opening d e nm = Inl err"
  by (simp add: upsert_opening_def)

lemma process_game_fails_opening:
  "family_of (hget (headers g) ''Opening'' ''Unknown'') = Inl err \<Longrightarrow> process_game d g = Inl err"
  by (simp add: process_game_def Let_def upsert_opening_fails)

lemma process_game_fails_rating:
  assumes "family_of (hget (headers g) ''Opening'' ''Unknown'') = Inr fam"
    and "rating_of (headers g) ''WhiteElo'' = Inl err \<or>
         (rating_of (headers g) ''WhiteElo'' = Inr wr \<and> rating_of (headers g) ''BlackElo'' = Inl err)"
  shows "process_game d g = Inl err"
proof -
  from upsert_opening_total [OF assms(1)] obtain oid d1 where
    "upsert_opening d (hget (headers g) ''ECO'' ''?'') (hget (headers g) ''Opening'' ''Unknown'') = Inr (oid, d1)"
    by blast
  with assms(2) show ?thesis
    by (auto simp: process_game_def Let_def)
qed

lemma process_game_succeeds:
  assumes "family_of (hget (headers g) ''Opening'' ''Unknown'') = Inr fam"
    and "rating_of (headers g) ''WhiteElo'' = Inr wr"
    and "rating_of (headers g) ''BlackElo'' = Inr br"
  shows "\<exists>d'. process_game d g = Inr d'"
proof -
  from upsert_opening_total [OF assms(1)] obtain oid d1 where
    o: "upsert_opening d (hget (headers g) ''ECO'' ''?'') (hget (headers g) ''Opening'' ''Unknown'') = Inr (oid, d1)"
    by blast
  show ?thesis
    using o assms(2,3)
    by (simp add: process_game_def Let_def game_dict_def game_id_of_total split: prod.splits)
qed

lemma int_of_str_error: "int_of_str v = Inl err \<Longrightarrow> err = ValueError"
  by (auto simp: int_of_str_def unsigned_int_def map_sum_def split: list.splits if_splits option.splits sum.splits)

lemma rating_of_error: "rating_of h k = Inl err \<Longrightarrow> err = ValueError"
  by (auto simp: rating_of_def split: option.splits dest: int_of_str_error)

lemma insert_game_present:
  "\<exists>row \<in> set (games d). game_id row = game_id g \<Longrightarrow> insert_game d g = d"
  by (simp add: insert_game_def)

lemma Bex_game_id: "(\<exists>r \<in> set xs. game_id r = k) = (k \<in> game_id ` set xs)"
  by blast

lemma process_game_games:
  assumes "process_game d g = Inr d'"
  shows "\<exists>row. game_id_of (headers g) = Inr (game_id row) \<and>
           games d' = (if game_id row \<in> loaded_ids d then games d else games d @ [row])"
proof -
  from process_game_Inr [OF assms] obtain oid wr br wid bid d3 row where
    g3: "games d3 = games d" and
    r: "game_dict g oid wid bid wr br = Inr row" and
    d': "d' = insert_game d3 row"
    by blast
  have "game_id_of (headers g) = Inr (game_id row)"
    using game_dict_fields [OF r] by simp
  moreover have "games d' = (if game_id row \<in> loaded_ids d then games d else games d @ [row])"
    by (simp add: d' insert_game_def g3 loaded_ids_def Bex_game_id)
  ultimately show ?thesis by blast
qed

lemma process_game_any_db:
  assumes "process_game d g = Inr d'"
  shows "\<exists>e'. process_game e g = Inr e'"
proof -
  from process_game_Inr [OF assms] obtain oid d1 wr br where
    o: "upsert_opening d (hget (headers g) ''ECO'' ''?'')
             (hget (headers g) ''Opening'' ''Unknown'') = Inr (oid, d1)" and
    w: "rating_of (headers g) ''WhiteElo'' = Inr wr" and
    b: "rating_of (headers g) ''BlackElo'' = Inr br"
    by blast
  from o obtain fam where "family_of (hget (headers g) ''Opening'' ''Unknown'') = Inr fam"
    by (auto simp: upsert_opening_def split: sum.splits)
  then show ?thesis
    using w b process_game_succeeds by blast
qed

lemma process_game_ids:
  assumes "process_game d g = Inr d'" and "game_id_of (headers g) = Inr gid"
  shows "loaded_ids d' = insert gid (loaded_ids d)"
proof -
  from process_game_games [OF assms(1)] obtain row where
    i: "game_id_of (headers g) = Inr (game_id row)" and
    gs: "games d' = (if game_id row \<in> loaded_ids d then games d else games d @ [row])"
    by blast
  have gid: "game_id row = gid"
    using i assms(2) by simp
  show ?thesis
  proof (cases "gid \<in> loaded_ids d")
    case True
    then have "games d' = games d"
      using gs gid by simp
    then have "loaded_ids d' = loaded_ids d"
      by (simp add: loaded_ids_def)
    with True show ?thesis
      by (simp add: insert_absorb)
  next
    case False
    then have "games d' = games d @ [row]"
      using gs gid by simp
    then show ?thesis
      by (simp add: loaded_ids_def gid)
  qed
qed

lemma process_game_reload:
  assumes "process_game d g = Inr d'" and "game_id_of (headers g) = Inr gid"
    and "gid \<in> loaded_ids d"
  shows "games d' = games d"
proof -
  from process_game_games [OF assms(1)] obtain row where
    i: "game_id_of (headers g) = Inr (game_id row)" and
    gs: "games d' = (if game_id row \<in> loaded_ids d then games d else games d @ [row])"
    by blast
  have "game_id row = gid"
    using i assms(2) by simp
  with gs assms(3) show ?thesis
    by simp
qed

lemma process_loop_ids:
  "process_loop d n gs = Inr (d', n') \<Longrightarrow>
   loaded_ids d \<subseteq> loaded_ids d' \<and>
   (\<forall>g \<in> set gs. \<forall>gid. game_id_of (headers g) = Inr gid \<longrightarrow> gid \<in> loaded_ids d') \<and>
   (\<forall>g \<in> set gs. \<exists>e e'. process_game e g = Inr e')"
proof (induction gs arbitrary: d n)
  case Nil
  then show ?case by simp
next
  case (Cons g gs)
  from Cons.prems obtain d1 where
    s: "process_game d g = Inr d1" and l: "process_loop d1 (n + 1) gs = Inr (d', n')"
    by (auto split: sum.splits)
  have ids: "loaded_ids d1 = insert (last (split_on CHR ''/'' (hget (headers g) ''Site'' []))) (loaded_ids d)"
    using process_game_ids [OF s] by (simp add: game_id_of_total)
  from Cons.IH [OF l] ids s show ?case
    by (auto simp: game_id_of_total)
qed

lemma process_loop_reload:
  assumes "\<forall>g \<in> set gs. \<exists>e e'. process_game e g = Inr e'"
    and "\<forall>g \<in> set gs. \<forall>gid. game_id_of (headers g) = Inr gid \<longrightarrow> gid \<in> loaded_ids d"
  shows "\<exists>d'. process_loop d n gs = Inr (d', n + length gs) \<and> games d' = games d"
  using assms
proof (induction gs arbitrary: d n)
  case Nil
  then show ?case by simp
next
  case (Cons g gs)
  from Cons.prems(1) obtain e e' where "process_game e g = Inr e'"
    by auto
  then obtain d1 where s: "process_game d g = Inr d1"
    using process_game_any_db by blast
  have "last (split_on CHR ''/'' (hget (headers g) ''Site'' [])) \<in> loaded_ids d"
    using Cons.prems(2) by (simp add: game_id_of_total)
  then have same: "games d1 = games d"
    using process_game_reload [OF s] by (simp add: game_id_of_total)
  then have "loaded_ids d1 = loaded_ids d"
    by (simp add: loaded_ids_def)
  with Cons.prems have
    "\<forall>g \<in> set gs. \<exists>e e'. process_game e g = Inr e'"
    "\<forall>g \<in> set gs. \<forall>gid. game_id_of (headers g) = Inr gid \<longrightarrow> gid \<in> loaded_ids d1"
    by simp_all
  from Cons.IH [OF this, of "n + 1"] s same show ?case
    by auto
qed

lemma process_loop_count:
  "process_loop d n gs = Inr (d', n') \<Longrightarrow> n' = n + length gs"
proof (induction gs arbitrary: d n)
  case Nil
  then show ?case by simp
next
  case (Cons g gs)
  from Cons.prems obtain d1 where "process_loop d1 (n + 1) gs = Inr (d', n')"
    by (auto split: sum.splits)
  from Cons.IH [OF this] show ?case by simp
qed

lemma count_replace_le:
  "old \<noteq> [] \<Longrightarrow> c \<notin> set old \<Longrightarrow> count_list s c \<le> count_list (replace old new s) c"
proof (induction old new s rule: replace.induct)
  case (1 old new)
  then show ?case by simp
next
  case (2 old new x xs)
  show ?case
  proof (cases "take (length old) (x # xs) = old")
    case True
    have "count_list (x # xs) c
            = count_list (take (length old) (x # xs)) c + count_list (drop (length old) (x # xs)) c"
      by (metis append_take_drop_id count_list_append)
    also have "\<dots> = count_list (drop (length old) (x # xs)) c"
      using True "2.prems" by simp
    also have "\<dots> \<le> count_list (replace old new (drop (length old) (x # xs))) c"
      using "2.IH"(2) True "2.prems" by simp
    finally show ?thesis
      using True "2.prems" by simp
  next
    case False
    then show ?thesis
      using "2.IH"(3) "2.prems" by simp
  qed
qed

lemma count_replace_less:
  "old \<noteq> [] \<Longrightarrow> c \<notin> set old \<Longrightarrow> c \<in> set new \<Longrightarrow> occurs old s \<Longrightarrow>
   count_list s c < count_list (replace old new s) c"
proof (induction old new s rule: replace.induct)
  case (1 old new)
  then show ?case by simp
next
  case (2 old new x xs)
  have pos: "0 < count_list new c"
    using "2.prems"(3) by (simp add: count_list_0_iff zero_less_iff_neq_zero)
  show ?case
  proof (cases "take (length old) (x # xs) = old")
    case True
    have "count_list (x # xs) c
            = count_list (take (length old) (x # xs)) c + count_list (drop (length old) (x # xs)) c"
      by (metis append_take_drop_id count_list_append)
    also have "\<dots> = count_list (drop (length old) (x # xs)) c"
      using True "2.prems" by simp
    also have "\<dots> \<le> count_list (replace old new (drop (length old) (x # xs))) c"
      using count_replace_le "2.prems" by simp
    finally show ?thesis
      using True "2.prems" pos by simp
  next
    case False
    with "2.prems" have "occurs old xs" by simp
    then show ?thesis
      using "2.IH"(3) "2.prems" False by simp
  qed
qed

lemma replace_changes:
  "old \<noteq> [] \<Longrightarrow> c \<notin> set old \<Longrightarrow> c \<in> set new \<Longrightarrow> occurs old s \<Longrightarrow> replace old new s \<noteq> s"
  using count_replace_less [of old c new s] by auto

lemma map_result_fixed_iff:
  "map_result r = r \<longleftrightarrow>
     \<not> occurs ''1-0'' r \<and> \<not> occurs ''0-1'' r \<and> \<not> occurs ''1/2-1/2'' r"
proof (cases "occurs ''1-0'' r")
  case True
  let ?r1 = "replace ''1-0'' ''white'' r"
  let ?r2 = "replace ''0-1'' ''black'' ?r1"
  have "count_list r CHR ''h'' < count_list ?r1 CHR ''h''"
    using True by (intro count_replace_less) simp_all
  also have "\<dots> \<le> count_list ?r2 CHR ''h''"
    by (intro count_replace_le) simp_all
  also have "\<dots> \<le> count_list (replace ''1/2-1/2'' ''draw'' ?r2) CHR ''h''"
    by (intro count_replace_le) simp_all
  finally have "map_result r \<noteq> r"
    by (auto simp: map_result_def)
  with True show ?thesis by simp
next
  case no1: False
  then have r1: "replace ''1-0'' ''white'' r = r"
    by (rule replace_absent)
  show ?thesis
  proof (cases "occurs ''0-1'' r")
    case True
    let ?r2 = "replace ''0-1'' ''black'' r"
    have "count_list r CHR ''b'' < count_list ?r2 CHR ''b''"
      using True by (intro count_replace_less) simp_all
    also have "\<dots> \<le> count_list (replace ''1/2-1/2'' ''draw'' ?r2) CHR ''b''"
      by (intro count_replace_le) simp_all
    finally have "map_result r \<noteq> r"
      by (auto simp: map_result_def r1)
    with True show ?thesis by simp
  next
    case no2: False
    then have r2: "replace ''0-1'' ''black'' r = r"
      by (rule replace_absent)
    show ?thesis
    proof (cases "occurs ''1/2-1/2'' r")
      case True
      then have "replace ''1/2-1/2'' ''draw'' r \<noteq> r"
        by (intro replace_changes [of _ "CHR ''d''"]) simp_all
      with True show ?thesis
        by (simp add: map_result_def r1 r2)
    next
      case False
      with no1 no2 show ?thesis
        by (simp add: map_result_def r1 r2 replace_absent)
    qed
  qed
qed

lemma openings_upsert_player: "openings (snd (upsert_player d u r)) = openings d"
  by (simp add: upsert_player_def split: option.splits)

lemma openings_insert_game: "openings (insert_game d g) = openings d"
  by (simp add: insert_game_def)

lemma process_game_openings:
  assumes "process_game d g = Inr d'"
  shows "\<exists>oid d1. upsert_opening d (hget (headers g) ''ECO'' ''?'')
                     (hget (headers g) ''Opening'' ''Unknown'') = Inr (oid, d1) \<and>
                   openings d' = openings d1"
proof -
  let ?h = "headers g"
  obtain oid d1 where
    o: "upsert_opening d (hget ?h ''ECO'' ''?'') (hget ?h ''Opening'' ''Unknown'') = Inr (oid, d1)"
    using assms by (auto simp: process_game_def Let_def split: sum.splits)
  obtain wr where w: "rating_of ?h ''WhiteElo'' = Inr wr"
    using assms o by (auto simp: process_game_def Let_def split: sum.splits)
  obtain br where b: "rating_of ?h ''BlackElo'' = Inr br"
    using assms o w by (auto simp: process_game_def Let_def split: sum.splits)
  define p2 where "p2 = upsert_player d1 (hget ?h ''White'' ''?'') wr"
  define p3 where "p3 = upsert_player (snd p2) (hget ?h ''Black'' ''?'') br"
  obtain row where r: "game_dict g oid (fst p2) (fst p3) wr br = Inr row"
    using game_dict_total by blast
  have d': "d' = insert_game (snd p3) row"
    using assms o w b r by (simp add: process_game_def Let_def p2_def p3_def split: prod.splits)
  have "openings d' = openings d1"
    by (simp add: d' openings_insert_game p3_def p2_def openings_upsert_player)
  with o show ?thesis by blast
qed

lemma upsert_opening_new:
  assumes "find (\<lambda>row. eco row = e) (openings d) = None" and "family_of nm = Inr fam"
  shows "\<exists>oid d'. upsert_opening d e nm = Inr (oid, d') \<and>
           openings d' = openings d @ [\<lparr>opening_id = oid, eco = e, name = nm, family = fam\<rparr>] \<and>
           players d' = players d \<and> games d' = games d"
  using assms by (simp add: upsert_opening_def)

lemma family_of_shape:
  "(CHR '':'' \<in> set nm \<longrightarrow>
      (\<exists>fam rest. family_of nm = Inr fam \<and> nm = fam @ CHR '':'' # rest \<and> CHR '':'' \<notin> set fam)) \<and>
   (CHR '':'' \<notin> set nm \<and> (\<exists>c \<in> set nm. \<not> is_space c) \<longrightarrow>
      (\<exists>ws fam rest. family_of nm = Inr fam \<and> nm = ws @ fam @ rest \<and>
         (\<forall>c \<in> set ws. is_space c) \<and> fam \<noteq> [] \<and> (\<forall>c \<in> set fam. \<not> is_space c) \<and>
         (rest = [] \<or> is_space (hd rest))))"
proof (intro conjI impI)
  assume c: "CHR '':'' \<in> set nm"
  let ?fam = "takeWhile (\<lambda>c. c \<noteq> CHR '':'') nm"
  let ?rest = "dropWhile (\<lambda>c. c \<noteq> CHR '':'') nm"
  have "?rest \<noteq> []" using c by simp
  moreover have "hd ?rest = CHR '':''"
    using hd_dropWhile [of "\<lambda>c. c \<noteq> CHR '':''" nm] c by auto
  ultimately have "?rest = CHR '':'' # tl ?rest"
    by (cases ?rest) auto
  then have "nm = ?fam @ CHR '':'' # tl ?rest"
    using takeWhile_dropWhile_id [of "\<lambda>c. c \<noteq> CHR '':''" nm] by simp
  moreover have "CHR '':'' \<notin> set ?fam"
    by (auto dest: set_takeWhileD)
  ultimately show "\<exists>fam rest. family_of nm = Inr fam \<and> nm = fam @ CHR '':'' # rest \<and> CHR '':'' \<notin> set fam"
    using family_of_colon [OF c] by blast
next
  assume a: "CHR '':'' \<notin> set nm \<and> (\<exists>c \<in> set nm. \<not> is_space c)"
  let ?ws = "takeWhile is_space nm"
  let ?r = "dropWhile is_space nm"
  let ?fam = "takeWhile (\<lambda>c. \<not> is_space c) ?r"
  let ?rest = "dropWhile (\<lambda>c. \<not> is_space c) ?r"
  have fam: "family_of nm = Inr ?fam"
    using a family_of_token by blast
  have nm: "nm = ?ws @ ?fam @ ?rest"
    by simp
  have ws: "\<forall>c \<in> set ?ws. is_space c"
    by (auto dest: set_takeWhileD)
  have "?r \<noteq> []" using a by (simp add: dropWhile_space_nil)
  moreover have "\<not> is_space (hd ?r)"
    using hd_dropWhile [of is_space nm] a by (simp add: dropWhile_space_nil)
  ultimately have ne: "?fam \<noteq> []"
    by (cases ?r) auto
  have tok: "\<forall>c \<in> set ?fam. \<not> is_space c"
    by (auto dest: set_takeWhileD)
  have rest: "?rest = [] \<or> is_space (hd ?rest)"
    using hd_dropWhile [of "\<lambda>c. \<not> is_space c" ?r] by auto
  from fam nm ws ne tok rest show "\<exists>ws fam rest. family_of nm = Inr fam \<and> nm = ws @ fam @ rest \<and>
         (\<forall>c \<in> set ws. is_space c) \<and> fam \<noteq> [] \<and> (\<forall>c \<in> set fam. \<not> is_space c) \<and>
         (rest = [] \<or> is_space (hd rest))"
    by blast
qed

lemma write_lines_append: "write_lines (xs @ ys) = write_lines xs @ write_lines ys"
  by (simp add: write_lines_def)

lemma streamed_append: "streamed remote (us @ vs) = streamed remote us @ streamed remote vs"
  by (simp add: streamed_def)

lemma export_loop_prefix:
  "\<forall>u \<in> set us. aborts (remote u) = None \<Longrightarrow>
   export_loop remote (us @ rest) f con =
     export_loop remote rest (f @ write_lines (streamed remote us)) (con @ log_lines remote us)"
proof (induction us arbitrary: f con)
  case Nil
  then show ?case by (simp add: streamed_def log_lines_def write_lines_def)
next
  case (Cons u us)
  then have ih: "export_loop remote (us @ rest) f' con' =
     export_loop remote rest (f' @ write_lines (streamed remote us)) (con' @ log_lines remote us)"
    for f' con'
    by simp
  have ok: "aborts (remote u) = None"
    using Cons.prems by simp
  show ?case
  proof (cases "remote u")
    case (Raises_ResponseError exc)
    then show ?thesis
      by (simp add: ih streamed_def log_lines_def records_of_def)
  next
    case (Raises_other exc)
    with ok show ?thesis by (simp add: aborts_def)
  next
    case (Yields stream failure)
    with ok have "failure = None" by (simp add: aborts_def)
    with Yields show ?thesis
      by (simp add: ih streamed_def log_lines_def records_of_def write_lines_append)
  qed
qed

lemma export_loop_all:
  "\<forall>u \<in> set us. aborts (remote u) = None \<Longrightarrow>
   export_loop remote us f con =
     \<lparr>out_file = Some (f @ write_lines (streamed remote us)),
      console = con @ log_lines remote us, raised = None\<rparr>"
  using export_loop_prefix [of us remote "[]" f con] by simp

lemma export_loop_abort_head:
  "aborts (remote x) = Some exc \<Longrightarrow>
   export_loop remote (x # post) f con =
     \<lparr>out_file = Some (f @ write_lines (records_of (remote x))),
      console = con @ [progress_line x], raised = Some exc\<rparr>"
  by (cases "remote x") (auto simp: aborts_def records_of_def write_lines_def)

lemma export_loop_abort:
  assumes "\<forall>u \<in> set pre. aborts (remote u) = None" and "aborts (remote x) = Some exc"
  shows "export_loop remote (pre @ x # post) f con =
     \<lparr>out_file = Some (f @ write_lines (streamed remote (pre @ [x]))),
      console = con @ log_lines remote pre @ [progress_line x], raised = Some exc\<rparr>"
  using export_loop_prefix [OF assms(1), of "x # post" f con]
    export_loop_abort_head [of remote x exc post] assms(2)
  by (simp add: streamed_append write_lines_append streamed_def)

section \<open>Properties of the loader\<close>

text \<open>
  C2. The rating merge of \<open>upsert_player\<close> is a greatest-of merge. For a user who has no row
  yet, two upserts with the ratings \<open>r1\<close> and \<open>r2\<close> leave \<open>max r1 r2\<close> as the stored
  \<open>highest_rating\<close>, in either order. For a user who has a row with the rating \<open>h\<close>, an
  upsert with \<open>r\<close> leaves \<open>max h r\<close>. Across any sequence of upserts, of any users, the
  stored rating of a user never decreases.
\<close>

theorem highest_rating_greatest_of:
  "(stored_rating d u = None \<longrightarrow>
      stored_rating (upsert_players d [(u, r1), (u, r2)]) u = Some (max r1 r2) \<and>
      stored_rating (upsert_players d [(u, r2), (u, r1)]) u = Some (max r1 r2)) \<and>
   (stored_rating d u = Some h \<longrightarrow>
      stored_rating (snd (upsert_player d u r)) u = Some (max h r)) \<and>
   (stored_rating d v = Some h \<longrightarrow>
      (\<exists>h'. stored_rating (upsert_players d ups) v = Some h' \<and> h \<le> h'))"
proof (intro conjI impI)
  assume "stored_rating d u = None"
  then show "stored_rating (upsert_players d [(u, r1), (u, r2)]) u = Some (max r1 r2)"
    by (simp add: upsert_players_def stored_rating_upsert)
next
  assume "stored_rating d u = None"
  then show "stored_rating (upsert_players d [(u, r2), (u, r1)]) u = Some (max r1 r2)"
    by (simp add: upsert_players_def stored_rating_upsert max.commute)
next
  assume "stored_rating d u = Some h"
  then show "stored_rating (snd (upsert_player d u r)) u = Some (max h r)"
    by (simp add: stored_rating_upsert)
next
  assume "stored_rating d v = Some h"
  then show "\<exists>h'. stored_rating (upsert_players d ups) v = Some h' \<and> h \<le> h'"
    by (rule stored_rating_mono)
qed

theorem highest_rating_greatest_of_witness:
  "stored_rating empty_db ''alice'' = None \<and>
   stored_rating (upsert_players empty_db [(''alice'', 1500), (''alice'', 1800)]) ''alice'' = Some 1800 \<and>
   stored_rating (upsert_players empty_db [(''alice'', 1800), (''alice'', 1500)]) ''alice'' = Some 1800 \<and>
   stored_rating db_one ''alice'' = Some 2200 \<and>
   stored_rating (snd (upsert_player db_one ''alice'' 1900)) ''alice'' = Some 2200 \<and>
   (\<exists>h'. stored_rating (upsert_players db_one [(''bob'', 2500), (''alice'', 1900)]) ''alice'' = Some h'
          \<and> 2200 \<le> h')"
proof -
  have a: "stored_rating empty_db ''alice'' = None"
    by (simp add: stored_rating_def empty_db_def)
  have b: "stored_rating db_one ''alice'' = Some 2200"
    by (simp add: stored_rating_def db_one_def)
  show ?thesis
    using a b
      highest_rating_greatest_of [of empty_db "''alice''" 1500 1800 0 0 "''alice''" "[]"]
      highest_rating_greatest_of [of db_one "''alice''" 0 0 2200 1900 "''alice''"
        "[(''bob'', 2500), (''alice'', 1900)]"]
    by simp
qed

text \<open>
  C9. When \<open>upsert_opening\<close> meets a row with the same ECO code, it returns that row's
  identifier and overwrites the row's \<open>name\<close> only: \<open>eco\<close>, \<open>family\<close> and
  \<open>opening_id\<close> of every row stay as they were, the rows of other codes are untouched,
  and no row is added. (The family of the incoming name is still computed before the
  statement runs, so the upsert presupposes that this computation succeeds.)
\<close>

theorem opening_conflict_overwrites_name_only:
  assumes "find (\<lambda>row. eco row = e) (openings d) = Some old"
    and "family_of nm = Inr fam"
  shows "\<exists>d'. upsert_opening d e nm = Inr (opening_id old, d') \<and>
           find (\<lambda>row. eco row = e) (openings d') = Some (old\<lparr>name := nm\<rparr>) \<and>
           length (openings d') = length (openings d) \<and>
           (\<forall>i < length (openings d).
              eco (openings d' ! i) = eco (openings d ! i) \<and>
              family (openings d' ! i) = family (openings d ! i) \<and>
              opening_id (openings d' ! i) = opening_id (openings d ! i) \<and>
              name (openings d' ! i) =
                (if eco (openings d ! i) = e then nm else name (openings d ! i))) \<and>
           players d' = players d \<and> games d' = games d"
  using assms by (simp add: upsert_opening_def find_openings_map)

theorem opening_conflict_overwrites_name_only_witness:
  "find (\<lambda>row. eco row = ''B90'') (openings db_one)
     = Some \<lparr>opening_id = 0, eco = ''B90'', name = ''Sicilian Defense: Najdorf Variation'',
             family = ''Sicilian Defense''\<rparr> \<and>
   family_of ''Najdorf'' = Inr ''Najdorf'' \<and>
   (\<exists>d'. upsert_opening db_one ''B90'' ''Najdorf'' = Inr (0, d') \<and>
      openings d' =
        [\<lparr>opening_id = 0, eco = ''B90'', name = ''Najdorf'', family = ''Sicilian Defense''\<rparr>])"
proof -
  have a: "find (\<lambda>row. eco row = ''B90'') (openings db_one)
     = Some \<lparr>opening_id = 0, eco = ''B90'', name = ''Sicilian Defense: Najdorf Variation'',
             family = ''Sicilian Defense''\<rparr>"
    by (simp add: db_one_def)
  have b: "family_of ''Najdorf'' = Inr ''Najdorf''"
    by (simp add: family_of_def item_first_def split_ws.simps is_space_def)
  from opening_conflict_overwrites_name_only [OF a b] obtain d' where
    d': "upsert_opening db_one ''B90'' ''Najdorf'' = Inr (0, d')"
    "find (\<lambda>row. eco row = ''B90'') (openings d')
       = Some \<lparr>opening_id = 0, eco = ''B90'', name = ''Najdorf'', family = ''Sicilian Defense''\<rparr>"
    "length (openings d') = length (openings db_one)"
    by auto
  have "length (openings d') = 1"
    using d'(3) by (simp add: db_one_def)
  then obtain r where r: "openings d' = [r]"
    by (cases "openings d'") auto
  with d'(2) have
    "r = \<lparr>opening_id = 0, eco = ''B90'', name = ''Najdorf'', family = ''Sicilian Defense''\<rparr>"
    by (auto split: if_splits)
  with a b d'(1) r show ?thesis by simp
qed

text \<open>
  C1. \<open>insert_game\<close> on a game whose \<open>game_id\<close> is already in \<open>games\<close> leaves the
  whole store as it was: nothing is inserted and nothing is updated. Hence, when a load of
  a file ends without an exception, a second load of the same file ends without an
  exception too, counts the same number of games, and leaves the table \<open>games\<close>, and so
  its row count, exactly as the first load left it.
\<close>

theorem reload_adds_no_game:
  "((\<exists>row \<in> set (games d). game_id row = game_id g) \<longrightarrow> insert_game d g = d) \<and>
   (process_pgn d gs = Inr (d1, n1) \<longrightarrow>
      (\<exists>d2. process_pgn d1 gs = Inr (d2, n1) \<and> games d2 = games d1 \<and>
             length (games d2) = length (games d1)))"
proof (intro conjI impI)
  assume "\<exists>row \<in> set (games d). game_id row = game_id g"
  then show "insert_game d g = d"
    by (rule insert_game_present)
next
  assume "process_pgn d gs = Inr (d1, n1)"
  then have l: "process_loop d 0 gs = Inr (d1, n1)"
    by (simp add: process_pgn_def)
  have n1: "n1 = length gs"
    using process_loop_count [OF l] by simp
  from process_loop_ids [OF l] have
    "\<forall>g \<in> set gs. \<exists>e e'. process_game e g = Inr e'"
    "\<forall>g \<in> set gs. \<forall>gid. game_id_of (headers g) = Inr gid \<longrightarrow> gid \<in> loaded_ids d1"
    by blast+
  from process_loop_reload [OF this, of 0] n1
  show "\<exists>d2. process_pgn d1 gs = Inr (d2, n1) \<and> games d2 = games d1 \<and>
             length (games d2) = length (games d1)"
    by (auto simp: process_pgn_def)
qed

theorem reload_adds_no_game_witness:
  "(\<exists>row \<in> set (games (insert_game empty_db row_a)).
      game_id row = game_id (row_a\<lparr>winner := ''black''\<rparr>)) \<and>
   insert_game (insert_game empty_db row_a) (row_a\<lparr>winner := ''black''\<rparr>) = insert_game empty_db row_a \<and>
   (\<exists>d1. process_pgn empty_db [game_a, game_b, game_a] = Inr (d1, 3) \<and> length (games d1) = 2 \<and>
      (\<exists>d2. process_pgn d1 [game_a, game_b, game_a] = Inr (d2, 3) \<and> games d2 = games d1 \<and>
         length (games d2) = 2))"
proof -
  let ?d = "insert_game empty_db row_a"
  let ?g = "row_a\<lparr>winner := ''black''\<rparr>"
  have a: "\<exists>row \<in> set (games ?d). game_id row = game_id ?g"
    by (simp add: insert_game_def empty_db_def)
  have "\<not> isl (process_pgn empty_db [game_a, game_b, game_a])"
    by code_simp
  then obtain d1 n1 where l: "process_pgn empty_db [game_a, game_b, game_a] = Inr (d1, n1)"
    by (cases "process_pgn empty_db [game_a, game_b, game_a]") auto
  have "snd (projr (process_pgn empty_db [game_a, game_b, game_a])) = 3"
    by code_simp
  with l have n1: "n1 = 3" by simp
  have "length (games (fst (projr (process_pgn empty_db [game_a, game_b, game_a])))) = 2"
    by code_simp
  with l have len: "length (games d1) = 2" by simp
  show ?thesis
    using reload_adds_no_game [of ?d ?g "[]" ?d 0]
      reload_adds_no_game [of empty_db ?g "[game_a, game_b, game_a]" d1 n1] a l n1 len
    by auto
qed

text \<open>
  C3 (as the code has it). The result header \<open>1-0\<close> gives the winner \<open>white\<close>,
  \<open>0-1\<close> gives \<open>black\<close>, \<open>1/2-1/2\<close> gives \<open>draw\<close>, and an absent header gives
  \<open>*\<close>. For every result header the winner is what the three substring replacements
  leave, applied one after the other, and it equals the header exactly when none of the
  three literals occurs in the header as a substring. This winner is the one in the row
  that a processed record inserts for a new game.
\<close>

theorem winner_substitution:
  "(h ''Result'' = Some ''1-0'' \<longrightarrow> winner_of h = ''white'') \<and>
   (h ''Result'' = Some ''0-1'' \<longrightarrow> winner_of h = ''black'') \<and>
   (h ''Result'' = Some ''1/2-1/2'' \<longrightarrow> winner_of h = ''draw'') \<and>
   (h ''Result'' = None \<longrightarrow> winner_of h = ''*'') \<and>
   (h ''Result'' = Some r \<longrightarrow>
      winner_of h =
        replace ''1/2-1/2'' ''draw'' (replace ''0-1'' ''black'' (replace ''1-0'' ''white'' r)) \<and>
      (winner_of h = r \<longleftrightarrow>
         \<not> occurs ''1-0'' r \<and> \<not> occurs ''0-1'' r \<and> \<not> occurs ''1/2-1/2'' r)) \<and>
   (process_game d g = Inr d' \<and> game_id_of (headers g) = Inr gid \<and>
      (\<forall>row \<in> set (games d). game_id row \<noteq> gid) \<longrightarrow>
      (\<exists>row. games d' = games d @ [row] \<and> winner row = winner_of (headers g)))"
proof (intro conjI impI)
  assume a: "process_game d g = Inr d' \<and> game_id_of (headers g) = Inr gid \<and>
      (\<forall>row \<in> set (games d). game_id row \<noteq> gid)"
  from process_game_Inr [of d g d'] a obtain oid wr br wid bid d3 row where
    g3: "games d3 = games d" and
    r: "game_dict g oid wid bid wr br = Inr row" and
    d': "d' = insert_game d3 row"
    by blast
  note f = game_dict_fields [OF r]
  have "games d' = games d @ [row]"
    using a f by (auto simp: d' insert_game_def g3)
  with f show "\<exists>row. games d' = games d @ [row] \<and> winner row = winner_of (headers g)"
    by (intro exI [of _ row]) simp
qed (auto simp: winner_of_def hget_def map_result_fixed_iff, auto simp: map_result_def)

theorem winner_substitution_witness:
  "winner_of [''Result'' \<mapsto> ''1-0''] = ''white'' \<and>
   winner_of [''Result'' \<mapsto> ''0-1''] = ''black'' \<and>
   winner_of [''Result'' \<mapsto> ''1/2-1/2''] = ''draw'' \<and>
   winner_of Map.empty = ''*'' \<and>
   winner_of [''Result'' \<mapsto> ''abandoned''] = ''abandoned'' \<and>
   occurs ''1-0'' ''10-1-0'' \<and> winner_of [''Result'' \<mapsto> ''10-1-0''] = ''10-white'' \<and>
   winner_of [''Result'' \<mapsto> ''10-1-0''] \<noteq> ''10-1-0'' \<and>
   (\<exists>d' row. process_game empty_db game_a = Inr d' \<and> games d' = [row] \<and> winner row = ''white'')"
proof -
  note t = winner_substitution
  have fresh: "\<forall>row \<in> set (games empty_db). game_id row \<noteq> x" for x
    by (simp add: empty_db_def)
  have nil: "games empty_db = []"
    by (simp add: empty_db_def)
  have "\<not> isl (process_game empty_db game_a)"
    by code_simp
  then obtain da where da: "process_game empty_db game_a = Inr da"
    by (cases "process_game empty_db game_a") auto
  have ga: "game_id_of (headers game_a) = Inr ''q7ZvsdUF''"
    by (simp add: game_id_of_def game_a_def hget_def item_last_def)
  have ra: "headers game_a ''Result'' = Some ''1-0''"
    by (simp add: game_a_def)
  from t [of "headers game_a" "''1-0''" empty_db game_a da "''q7ZvsdUF''"] da ga fresh ra nil
  have row: "\<exists>row. games da = [row] \<and> winner row = ''white''"
    by auto
  have occ: "occurs ''1-0'' ''10-1-0''"
    by simp
  have val: "winner_of [''Result'' \<mapsto> ''10-1-0''] = ''10-white''"
    using t [of "[''Result'' \<mapsto> ''10-1-0'']" "''10-1-0''"] by simp
  show ?thesis
    using t [of "[''Result'' \<mapsto> ''1-0'']" "''1-0''"]
      t [of "[''Result'' \<mapsto> ''0-1'']" "''0-1''"]
      t [of "[''Result'' \<mapsto> ''1/2-1/2'']" "''1/2-1/2''"]
      t [of "Map.empty" "''*''"]
      t [of "[''Result'' \<mapsto> ''abandoned'']" "''abandoned''"]
      t [of "[''Result'' \<mapsto> ''10-1-0'']" "''10-1-0''"]
      occ val row da
    by simp
qed

text \<open>
  The result \<open>1-0 forfeit\<close> is none of the three literals, yet it is not stored
  unchanged.
\<close>

theorem winner_substring_counterexample:
  "''1-0 forfeit'' \<notin> {''1-0'', ''0-1'', ''1/2-1/2''} \<and>
   winner_of [''Result'' \<mapsto> ''1-0 forfeit''] = ''white forfeit'' \<and>
   winner_of [''Result'' \<mapsto> ''1-0 forfeit''] \<noteq> ''1-0 forfeit''"
  by (simp add: winner_of_def hget_def map_result_def)

text \<open>
  C5 (as the code has it). When a side's rating header is absent, the row of the game gets
  the rating 0 for that side, and absent rating headers never make the record fail. When
  a rating header is present but \<open>int\<close> rejects it, processing the record raises
  \<open>ValueError\<close> (the opening having been upserted before).
\<close>

theorem rating_default_zero_when_absent:
  "(process_game d g = Inr d' \<and> game_id_of (headers g) = Inr gid \<and>
      (\<forall>row \<in> set (games d). game_id row \<noteq> gid) \<longrightarrow>
      (\<exists>row. games d' = games d @ [row] \<and>
         (headers g ''WhiteElo'' = None \<longrightarrow> white_rating row = 0) \<and>
         (headers g ''BlackElo'' = None \<longrightarrow> black_rating row = 0))) \<and>
   (family_of (hget (headers g) ''Opening'' ''Unknown'') = Inr fam \<and>
      headers g ''WhiteElo'' = None \<and> headers g ''BlackElo'' = None \<longrightarrow>
      (\<exists>d'. process_game d g = Inr d')) \<and>
   (family_of (hget (headers g) ''Opening'' ''Unknown'') = Inr fam \<and>
      (headers g ''WhiteElo'' = Some v \<or> headers g ''BlackElo'' = Some v) \<and>
      int_of_str v = Inl ValueError \<longrightarrow>
      process_game d g = Inl ValueError)"
proof (intro conjI impI)
  assume a: "process_game d g = Inr d' \<and> game_id_of (headers g) = Inr gid \<and>
      (\<forall>row \<in> set (games d). game_id row \<noteq> gid)"
  from process_game_Inr [of d g d'] a obtain oid wr br wid bid d3 row where
    w: "rating_of (headers g) ''WhiteElo'' = Inr wr" and
    b: "rating_of (headers g) ''BlackElo'' = Inr br" and
    g3: "games d3 = games d" and
    r: "game_dict g oid wid bid wr br = Inr row" and
    d': "d' = insert_game d3 row"
    by blast
  note f = game_dict_fields [OF r]
  have "games d' = games d @ [row]"
    using a f by (auto simp: d' insert_game_def g3)
  moreover have "headers g ''WhiteElo'' = None \<longrightarrow> white_rating row = 0"
    using w f by (auto simp: rating_of_def)
  moreover have "headers g ''BlackElo'' = None \<longrightarrow> black_rating row = 0"
    using b f by (auto simp: rating_of_def)
  ultimately show "\<exists>row. games d' = games d @ [row] \<and>
         (headers g ''WhiteElo'' = None \<longrightarrow> white_rating row = 0) \<and>
         (headers g ''BlackElo'' = None \<longrightarrow> black_rating row = 0)"
    by (intro exI [of _ row] conjI)
next
  assume a: "family_of (hget (headers g) ''Opening'' ''Unknown'') = Inr fam \<and>
      headers g ''WhiteElo'' = None \<and> headers g ''BlackElo'' = None"
  then have "rating_of (headers g) ''WhiteElo'' = Inr 0" "rating_of (headers g) ''BlackElo'' = Inr 0"
    by (simp_all add: rating_of_def)
  with a show "\<exists>d'. process_game d g = Inr d'"
    using process_game_succeeds by blast
next
  assume a: "family_of (hget (headers g) ''Opening'' ''Unknown'') = Inr fam \<and>
      (headers g ''WhiteElo'' = Some v \<or> headers g ''BlackElo'' = Some v) \<and>
      int_of_str v = Inl ValueError"
  show "process_game d g = Inl ValueError"
  proof (cases "rating_of (headers g) ''WhiteElo''")
    case (Inl err)
    then have "err = ValueError" by (rule rating_of_error)
    with Inl a show ?thesis
      using process_game_fails_rating [of g fam ValueError 0 d] by simp
  next
    case (Inr wr)
    with a have "headers g ''BlackElo'' = Some v"
      by (auto simp: rating_of_def)
    with a have "rating_of (headers g) ''BlackElo'' = Inl ValueError"
      by (simp add: rating_of_def)
    with Inr a show ?thesis
      using process_game_fails_rating [of g fam ValueError wr d] by simp
  qed
qed

theorem rating_default_zero_when_absent_witness:
  "(\<exists>d'. process_game empty_db game_d = Inr d' \<and>
      game_id_of (headers game_d) = Inr ''Hw9LmR4d'' \<and>
      (\<forall>row \<in> set (games empty_db). game_id row \<noteq> ''Hw9LmR4d'') \<and>
      headers game_d ''WhiteElo'' = None \<and> headers game_d ''BlackElo'' = None \<and>
      (\<exists>row. games d' = [row] \<and> white_rating row = 0 \<and> black_rating row = 0)) \<and>
   family_of (hget (headers game_c) ''Opening'' ''Unknown'') = Inr ''King's'' \<and>
   headers game_c ''WhiteElo'' = Some ''?'' \<and> int_of_str ''?'' = Inl ValueError \<and>
   process_game empty_db game_c = Inl ValueError"
proof -
  have fam_d: "family_of (hget (headers game_d) ''Opening'' ''Unknown'') = Inr ''Unknown''"
    by code_simp
  have none: "headers game_d ''WhiteElo'' = None" "headers game_d ''BlackElo'' = None"
    by (simp_all add: game_d_def)
  have gid: "game_id_of (headers game_d) = Inr ''Hw9LmR4d''"
    by (simp add: game_id_of_def game_d_def hget_def item_last_def)
  have fresh: "\<forall>row \<in> set (games empty_db). game_id row \<noteq> ''Hw9LmR4d''"
    by (simp add: empty_db_def)
  have nil: "games empty_db = []"
    by (simp add: empty_db_def)
  have fam_c: "family_of (hget (headers game_c) ''Opening'' ''Unknown'') = Inr ''King's''"
    by code_simp
  have elo: "headers game_c ''WhiteElo'' = Some ''?''"
    by (simp add: game_c_def)
  have bad: "int_of_str ''?'' = Inl ValueError"
    by code_simp
  note t = rating_default_zero_when_absent
  from t [of empty_db game_d _ _ "''Unknown''"] fam_d none
  obtain dd where dd: "process_game empty_db game_d = Inr dd"
    by blast
  from t [of empty_db game_d dd "''Hw9LmR4d''"] dd gid fresh none nil
  have "\<exists>row. games dd = [row] \<and> white_rating row = 0 \<and> black_rating row = 0"
    by auto
  moreover from t [of empty_db game_c _ _ "''King's''" "''?''"] fam_c elo bad
  have "process_game empty_db game_c = Inl ValueError"
    by blast
  ultimately show ?thesis
    using dd gid fresh none fam_c elo bad by blast
qed

text \<open>
  A record whose \<open>WhiteElo\<close> header is \<open>?\<close>: the extraction fails instead of using 0.
\<close>

theorem rating_unparsable_counterexample:
  "headers game_c ''WhiteElo'' = Some ''?'' \<and> process_game empty_db game_c = Inl ValueError"
  by code_simp

text \<open>
  C6. When \<open>upsert_opening\<close> inserts the row of an ECO code that has no row yet, the
  family it records is derived from the name. For a name that contains a colon it is the
  part of the name before the first colon. For a name without a colon that has a character
  other than white space it is the first token: the name is some white space, then the
  family, a non-empty run without white space, then either nothing or a rest that starts
  with white space. \<open>Sicilian Defense: Najdorf\<close> is recorded with the family
  \<open>Sicilian Defense\<close> and \<open>English Opening\<close> with \<open>English\<close>. The loop body hands
  the \<open>ECO\<close> and \<open>Opening\<close> headers to \<open>upsert_opening\<close>, so the row of a new
  opening of a processed record holds the family of the record's opening name.
\<close>

theorem family_derivation:
  "(CHR '':'' \<in> set nm \<and> find (\<lambda>row. eco row = e) (openings d) = None \<longrightarrow>
      (\<exists>fam rest oid d'. nm = fam @ CHR '':'' # rest \<and> CHR '':'' \<notin> set fam \<and>
         upsert_opening d e nm = Inr (oid, d') \<and>
         openings d' = openings d @ [\<lparr>opening_id = oid, eco = e, name = nm, family = fam\<rparr>])) \<and>
   (CHR '':'' \<notin> set nm \<and> (\<exists>c \<in> set nm. \<not> is_space c) \<and>
      find (\<lambda>row. eco row = e) (openings d) = None \<longrightarrow>
      (\<exists>ws fam rest oid d'. nm = ws @ fam @ rest \<and>
         (\<forall>c \<in> set ws. is_space c) \<and> fam \<noteq> [] \<and> (\<forall>c \<in> set fam. \<not> is_space c) \<and>
         (rest = [] \<or> is_space (hd rest)) \<and>
         upsert_opening d e nm = Inr (oid, d') \<and>
         openings d' = openings d @ [\<lparr>opening_id = oid, eco = e, name = nm, family = fam\<rparr>])) \<and>
   (find (\<lambda>row. eco row = e) (openings d) = None \<longrightarrow>
      (\<exists>oid d'. upsert_opening d e ''Sicilian Defense: Najdorf'' = Inr (oid, d') \<and>
         openings d' = openings d @ [\<lparr>opening_id = oid, eco = e,
           name = ''Sicilian Defense: Najdorf'', family = ''Sicilian Defense''\<rparr>]) \<and>
      (\<exists>oid d'. upsert_opening d e ''English Opening'' = Inr (oid, d') \<and>
         openings d' = openings d @ [\<lparr>opening_id = oid, eco = e,
           name = ''English Opening'', family = ''English''\<rparr>])) \<and>
   (process_game d g = Inr d1 \<and> headers g ''ECO'' = Some e \<and> headers g ''Opening'' = Some nm \<and>
      find (\<lambda>row. eco row = e) (openings d) = None \<longrightarrow>
      (\<exists>oid fam. family_of nm = Inr fam \<and>
         openings d1 = openings d @ [\<lparr>opening_id = oid, eco = e, name = nm, family = fam\<rparr>]))"
proof (intro conjI impI)
  assume a: "CHR '':'' \<in> set nm \<and> find (\<lambda>row. eco row = e) (openings d) = None"
  with family_of_shape [of nm] obtain fam rest where
    f: "family_of nm = Inr fam" "nm = fam @ CHR '':'' # rest" "CHR '':'' \<notin> set fam"
    by blast
  from a have n: "find (\<lambda>row. eco row = e) (openings d) = None"
    by simp
  from upsert_opening_new [OF n f(1)] obtain oid d' where
    "upsert_opening d e nm = Inr (oid, d')"
    "openings d' = openings d @ [\<lparr>opening_id = oid, eco = e, name = nm, family = fam\<rparr>]"
    by auto
  with f show "\<exists>fam rest oid d'. nm = fam @ CHR '':'' # rest \<and> CHR '':'' \<notin> set fam \<and>
         upsert_opening d e nm = Inr (oid, d') \<and>
         openings d' = openings d @ [\<lparr>opening_id = oid, eco = e, name = nm, family = fam\<rparr>]"
    by blast
next
  assume a: "CHR '':'' \<notin> set nm \<and> (\<exists>c \<in> set nm. \<not> is_space c) \<and>
      find (\<lambda>row. eco row = e) (openings d) = None"
  with family_of_shape [of nm] obtain ws fam rest where
    f: "family_of nm = Inr fam" "nm = ws @ fam @ rest" "\<forall>c \<in> set ws. is_space c" "fam \<noteq> []"
      "\<forall>c \<in> set fam. \<not> is_space c" "rest = [] \<or> is_space (hd rest)"
    by blast
  from a have n: "find (\<lambda>row. eco row = e) (openings d) = None"
    by simp
  from upsert_opening_new [OF n f(1)] obtain oid d' where
    "upsert_opening d e nm = Inr (oid, d')"
    "openings d' = openings d @ [\<lparr>opening_id = oid, eco = e, name = nm, family = fam\<rparr>]"
    by auto
  with f show "\<exists>ws fam rest oid d'. nm = ws @ fam @ rest \<and>
         (\<forall>c \<in> set ws. is_space c) \<and> fam \<noteq> [] \<and> (\<forall>c \<in> set fam. \<not> is_space c) \<and>
         (rest = [] \<or> is_space (hd rest)) \<and>
         upsert_opening d e nm = Inr (oid, d') \<and>
         openings d' = openings d @ [\<lparr>opening_id = oid, eco = e, name = nm, family = fam\<rparr>]"
    by blast
next
  assume a: "find (\<lambda>row. eco row = e) (openings d) = None"
  have "family_of ''Sicilian Defense: Najdorf'' = Inr ''Sicilian Defense''"
    by (simp add: family_of_colon)
  from upsert_opening_new [OF a this]
  show "\<exists>oid d'. upsert_opening d e ''Sicilian Defense: Najdorf'' = Inr (oid, d') \<and>
         openings d' = openings d @ [\<lparr>opening_id = oid, eco = e,
           name = ''Sicilian Defense: Najdorf'', family = ''Sicilian Defense''\<rparr>]"
    by blast
next
  assume a: "find (\<lambda>row. eco row = e) (openings d) = None"
  have "family_of ''English Opening'' = Inr ''English''"
    by (simp add: family_of_def item_first_def split_ws.simps is_space_def)
  from upsert_opening_new [OF a this]
  show "\<exists>oid d'. upsert_opening d e ''English Opening'' = Inr (oid, d') \<and>
         openings d' = openings d @ [\<lparr>opening_id = oid, eco = e,
           name = ''English Opening'', family = ''English''\<rparr>]"
    by blast
next
  assume a: "process_game d g = Inr d1 \<and> headers g ''ECO'' = Some e \<and>
      headers g ''Opening'' = Some nm \<and> find (\<lambda>row. eco row = e) (openings d) = None"
  then have h: "hget (headers g) ''ECO'' ''?'' = e" "hget (headers g) ''Opening'' ''Unknown'' = nm"
    by (simp_all add: hget_def)
  from process_game_openings [of d g d1] a h obtain oid0 d0 where
    o: "upsert_opening d e nm = Inr (oid0, d0)" "openings d1 = openings d0"
    by auto
  then obtain fam where fam: "family_of nm = Inr fam"
    by (auto simp: upsert_opening_def split: sum.splits)
  from upsert_opening_new [of e d nm fam] a fam o
  show "\<exists>oid fam. family_of nm = Inr fam \<and>
         openings d1 = openings d @ [\<lparr>opening_id = oid, eco = e, name = nm, family = fam\<rparr>]"
    by auto
qed

theorem family_derivation_witness:
  "CHR '':'' \<in> set ''Queen's Gambit Declined: Exchange Variation'' \<and>
   find (\<lambda>row. eco row = ''D35'') (openings db_one) = None \<and>
   (\<exists>oid d'. upsert_opening db_one ''D35'' ''Queen's Gambit Declined: Exchange Variation'' = Inr (oid, d') \<and>
      map family (openings d') = [''Sicilian Defense'', ''Queen's Gambit Declined'']) \<and>
   CHR '':'' \<notin> set ''  Ruy Lopez'' \<and> \<not> is_space CHR ''R'' \<and>
   (\<exists>oid d'. upsert_opening db_one ''C60'' ''  Ruy Lopez'' = Inr (oid, d') \<and>
      map family (openings d') = [''Sicilian Defense'', ''Ruy'']) \<and>
   (\<exists>d1. process_game empty_db game_b = Inr d1 \<and> map family (openings d1) = [''English''])"
proof -
  note t = family_derivation
  have a: "CHR '':'' \<in> set ''Queen's Gambit Declined: Exchange Variation''"
    by simp
  have n1: "find (\<lambda>row. eco row = ''D35'') (openings db_one) = None"
    by (simp add: db_one_def)
  have n2: "find (\<lambda>row. eco row = ''C60'') (openings db_one) = None"
    by (simp add: db_one_def)
  have b: "CHR '':'' \<notin> set ''  Ruy Lopez''" "\<not> is_space CHR ''R''"
    "\<exists>c \<in> set ''  Ruy Lopez''. \<not> is_space c"
    by (simp_all add: is_space_def)
  have o1: "map family (openings db_one) = [''Sicilian Defense'']"
    by (simp add: db_one_def)
  from t [of "''Queen's Gambit Declined: Exchange Variation''" "''D35''" db_one] a n1
  obtain fam rest oid d' where q:
    "''Queen's Gambit Declined: Exchange Variation'' = fam @ CHR '':'' # rest" "CHR '':'' \<notin> set fam"
    "upsert_opening db_one ''D35'' ''Queen's Gambit Declined: Exchange Variation'' = Inr (oid, d')"
    "openings d' = openings db_one @ [\<lparr>opening_id = oid, eco = ''D35'',
        name = ''Queen's Gambit Declined: Exchange Variation'', family = fam\<rparr>]"
    by blast
  have "map family (openings (snd (projr (upsert_opening db_one ''D35''
            ''Queen's Gambit Declined: Exchange Variation''))))
          = [''Sicilian Defense'', ''Queen's Gambit Declined'']"
    by code_simp
  with q(3) have w1: "\<exists>oid d'. upsert_opening db_one ''D35''
        ''Queen's Gambit Declined: Exchange Variation'' = Inr (oid, d') \<and>
      map family (openings d') = [''Sicilian Defense'', ''Queen's Gambit Declined'']"
    by auto
  from t [of "''  Ruy Lopez''" "''C60''" db_one] b n2
  obtain ws fam2 rest2 oid2 d2 where r:
    "upsert_opening db_one ''C60'' ''  Ruy Lopez'' = Inr (oid2, d2)"
    "openings d2 = openings db_one @ [\<lparr>opening_id = oid2, eco = ''C60'', name = ''  Ruy Lopez'', family = fam2\<rparr>]"
    by blast
  have "map family (openings (snd (projr (upsert_opening db_one ''C60'' ''  Ruy Lopez''))))
          = [''Sicilian Defense'', ''Ruy'']"
    by code_simp
  with r(1) have w2: "\<exists>oid d'. upsert_opening db_one ''C60'' ''  Ruy Lopez'' = Inr (oid, d') \<and>
      map family (openings d') = [''Sicilian Defense'', ''Ruy'']"
    by auto
  have "\<not> isl (process_game empty_db game_b)"
    by code_simp
  then obtain d1 where d1: "process_game empty_db game_b = Inr d1"
    by (cases "process_game empty_db game_b") auto
  have hb: "headers game_b ''ECO'' = Some ''A10''" "headers game_b ''Opening'' = Some ''English Opening''"
    by (simp_all add: game_b_def)
  have n3: "find (\<lambda>row. eco row = ''A10'') (openings empty_db) = None" "openings empty_db = []"
    by (simp_all add: empty_db_def)
  have fe: "family_of ''English Opening'' = Inr ''English''"
    by code_simp
  from t [of "''English Opening''" "''A10''" empty_db game_b d1] d1 hb n3 fe
  have w3: "\<exists>d1. process_game empty_db game_b = Inr d1 \<and> map family (openings d1) = [''English'']"
    by auto
  from a n1 w1 b(1,2) w2 w3 show ?thesis by blast
qed

text \<open>
  C7. When a record is processed without an exception and its game is new, the inserted
  row holds the two ratings as extracted (with the default 0 for an absent header), and its
  \<open>rating_diff\<close> is the absolute value of their difference: 100 for 2200 and 2100, and
  2200 when one side is 2200 and the other side's header is absent.
\<close>

theorem rating_diff_absolute_difference:
  assumes "process_game d g = Inr d'"
    and "game_id_of (headers g) = Inr gid"
    and "\<forall>row \<in> set (games d). game_id row \<noteq> gid"
  shows "\<exists>row. games d' = games d @ [row] \<and>
           rating_of (headers g) ''WhiteElo'' = Inr (white_rating row) \<and>
           rating_of (headers g) ''BlackElo'' = Inr (black_rating row) \<and>
           rating_diff row = \<bar>white_rating row - black_rating row\<bar> \<and>
           (white_rating row = 2200 \<and> black_rating row = 2100 \<longrightarrow> rating_diff row = 100) \<and>
           (white_rating row = 2200 \<and> headers g ''BlackElo'' = None \<longrightarrow> rating_diff row = 2200) \<and>
           (headers g ''WhiteElo'' = None \<and> black_rating row = 2200 \<longrightarrow> rating_diff row = 2200)"
proof -
  from process_game_Inr [OF assms(1)] obtain oid wr br wid bid d3 row where
    w: "rating_of (headers g) ''WhiteElo'' = Inr wr" and
    b: "rating_of (headers g) ''BlackElo'' = Inr br" and
    g3: "games d3 = games d" and
    r: "game_dict g oid wid bid wr br = Inr row" and
    d': "d' = insert_game d3 row"
    by blast
  note f = game_dict_fields [OF r]
  have gid: "game_id row = gid"
    using f assms(2) by simp
  have "games d' = games d @ [row]"
    using assms(3) by (simp add: d' insert_game_def g3 gid)
  moreover have "headers g ''BlackElo'' = None \<longrightarrow> br = 0"
    using b by (auto simp: rating_of_def)
  moreover have "headers g ''WhiteElo'' = None \<longrightarrow> wr = 0"
    using w by (auto simp: rating_of_def)
  ultimately show ?thesis
    using w b f by auto
qed

theorem rating_diff_absolute_difference_witness:
  "(\<exists>d'. process_game empty_db game_a = Inr d' \<and>
      game_id_of (headers game_a) = Inr ''q7ZvsdUF'' \<and>
      (\<forall>row \<in> set (games empty_db). game_id row \<noteq> ''q7ZvsdUF'') \<and>
      (\<exists>row. games d' = [row] \<and> white_rating row = 2200 \<and> black_rating row = 2100 \<and>
         rating_diff row = 100)) \<and>
   (\<exists>d'. process_game empty_db game_b = Inr d' \<and>
      game_id_of (headers game_b) = Inr ''Xk3PqW0a'' \<and>
      (\<forall>row \<in> set (games empty_db). game_id row \<noteq> ''Xk3PqW0a'') \<and>
      (\<exists>row. games d' = [row] \<and> white_rating row = 2200 \<and> black_rating row = 0 \<and>
         rating_diff row = 2200))"
proof -
  have fresh: "\<forall>row \<in> set (games empty_db). game_id row \<noteq> x" for x
    by (simp add: empty_db_def)
  have nil: "games empty_db = []"
    by (simp add: empty_db_def)
  have "\<not> isl (process_game empty_db game_a)"
    by code_simp
  then obtain da where da: "process_game empty_db game_a = Inr da"
    by (cases "process_game empty_db game_a") auto
  have ga: "game_id_of (headers game_a) = Inr ''q7ZvsdUF''"
    by (simp add: game_id_of_def game_a_def hget_def item_last_def)
  have wa: "rating_of (headers game_a) ''WhiteElo'' = Inr 2200"
    by code_simp
  have ba: "rating_of (headers game_a) ''BlackElo'' = Inr 2100"
    by code_simp
  have "\<not> isl (process_game empty_db game_b)"
    by code_simp
  then obtain db where db: "process_game empty_db game_b = Inr db"
    by (cases "process_game empty_db game_b") auto
  have gb: "game_id_of (headers game_b) = Inr ''Xk3PqW0a''"
    by (simp add: game_id_of_def game_b_def hget_def item_last_def)
  have wb: "rating_of (headers game_b) ''WhiteElo'' = Inr 2200"
    by code_simp
  have bb: "rating_of (headers game_b) ''BlackElo'' = Inr 0"
    by code_simp
  show ?thesis
    using rating_diff_absolute_difference [OF da ga fresh]
      rating_diff_absolute_difference [OF db gb fresh]
      da db ga gb fresh wa ba wb bb nil
    by auto
qed

text \<open>
  C10. A record whose \<open>Opening\<close> header is present, has no colon and consists of white
  space only (the empty string included) makes the family derivation raise
  \<open>IndexError\<close>, and with it the processing of the record, whatever the store holds.
\<close>

theorem blank_opening_name_fails:
  assumes "headers g ''Opening'' = Some nm"
    and "CHR '':'' \<notin> set nm"
    and "\<forall>c \<in> set nm. is_space c"
  shows "family_of nm = Inl IndexError \<and> process_game d g = Inl IndexError"
  using assms family_of_blank [of nm] process_game_fails_opening [of g IndexError d]
  by (simp add: hget_def)

theorem blank_opening_name_fails_witness:
  "headers game_e ''Opening'' = Some [] \<and> process_game empty_db game_e = Inl IndexError \<and>
   headers game_f ''Opening'' = Some ''  '' \<and> CHR '':'' \<notin> set ''  '' \<and>
   is_space CHR '' '' \<and> process_game empty_db game_f = Inl IndexError"
proof -
  have e: "headers game_e ''Opening'' = Some []"
    by (simp add: game_e_def)
  have f: "headers game_f ''Opening'' = Some ''  ''"
    by (simp add: game_f_def)
  have sp: "\<forall>c \<in> set ''  ''. is_space c"
    by (simp add: is_space_def)
  show ?thesis
    using blank_opening_name_fails [OF e, of empty_db]
      blank_opening_name_fails [OF f _ sp, of empty_db] e f sp
    by simp
qed

section \<open>Properties of the collector\<close>

text \<open>
  C8 (as the code has it). A user whose export call raises \<open>ResponseError\<close> is logged and
  skipped: when no user before \<open>x\<close> ends the run, the loop goes on behind \<open>x\<close> with the
  file as the earlier users left it and with the progress line and the error line of \<open>x\<close>
  printed, and it treats the users after \<open>x\<close> as it would without \<open>x\<close>. In a run in
  which no fetch fails in another way, no exception ends the run, and the console shows the
  progress line of every user in input order, the error line of each rejected user behind
  its progress line, and the closing line. A fetch that fails in another way, by an
  exception of another class from the call or by any exception while the stream is read,
  ends the run with that exception: the progress line of \<open>x\<close> is the last line printed,
  and no user after \<open>x\<close> is attempted.
\<close>

theorem failed_fetch_is_skipped:
  "((\<forall>u \<in> set pre. aborts (remote u) = None) \<and> remote x = Raises_ResponseError exc \<longrightarrow>
      export_loop remote (pre @ x # post) f con =
        export_loop remote post (f @ write_lines (streamed remote pre))
          (con @ log_lines remote pre @ [progress_line x, error_line x exc])) \<and>
   (token = Some tok \<and> tok \<noteq> [] \<and> new_client tok = Inr remote \<and>
      (\<forall>u \<in> set usernames. aborts (remote u) = None) \<longrightarrow>
      raised (export_games token new_client usernames out_path existing) = None \<and>
      console (export_games token new_client usernames out_path existing) =
        log_lines remote usernames @ [''Saved PGN to '' @ out_path]) \<and>
   (token = Some tok \<and> tok \<noteq> [] \<and> new_client tok = Inr remote \<and>
      (\<forall>u \<in> set pre. aborts (remote u) = None) \<and> aborts (remote x) = Some exc \<longrightarrow>
      raised (export_games token new_client (pre @ x # post) out_path existing) = Some exc \<and>
      console (export_games token new_client (pre @ x # post) out_path existing) =
        log_lines remote pre @ [progress_line x])"
proof (intro conjI impI)
  assume a: "(\<forall>u \<in> set pre. aborts (remote u) = None) \<and> remote x = Raises_ResponseError exc"
  then have "export_loop remote (pre @ x # post) f con =
      export_loop remote (x # post) (f @ write_lines (streamed remote pre)) (con @ log_lines remote pre)"
    using export_loop_prefix [of pre remote "x # post" f con] by simp
  with a show "export_loop remote (pre @ x # post) f con =
        export_loop remote post (f @ write_lines (streamed remote pre))
          (con @ log_lines remote pre @ [progress_line x, error_line x exc])"
    by simp
next
  assume a: "token = Some tok \<and> tok \<noteq> [] \<and> new_client tok = Inr remote \<and>
      (\<forall>u \<in> set usernames. aborts (remote u) = None)"
  then show "raised (export_games token new_client usernames out_path existing) = None"
    by (simp add: export_games_def Let_def export_loop_all)
next
  assume a: "token = Some tok \<and> tok \<noteq> [] \<and> new_client tok = Inr remote \<and>
      (\<forall>u \<in> set usernames. aborts (remote u) = None)"
  then show "console (export_games token new_client usernames out_path existing) =
        log_lines remote usernames @ [''Saved PGN to '' @ out_path]"
    by (simp add: export_games_def Let_def export_loop_all)
next
  assume a: "token = Some tok \<and> tok \<noteq> [] \<and> new_client tok = Inr remote \<and>
      (\<forall>u \<in> set pre. aborts (remote u) = None) \<and> aborts (remote x) = Some exc"
  then show "raised (export_games token new_client (pre @ x # post) out_path existing) = Some exc"
    by (simp add: export_games_def Let_def export_loop_abort)
next
  assume a: "token = Some tok \<and> tok \<noteq> [] \<and> new_client tok = Inr remote \<and>
      (\<forall>u \<in> set pre. aborts (remote u) = None) \<and> aborts (remote x) = Some exc"
  then show "console (export_games token new_client (pre @ x # post) out_path existing) =
        log_lines remote pre @ [progress_line x]"
    by (simp add: export_games_def Let_def export_loop_abort)
qed

theorem failed_fetch_is_skipped_witness:
  "example_remote ''alice'' = Yields [''game1'', ''game2''] None \<and>
   example_remote ''bob'' = Raises_ResponseError ''HTTP 429'' \<and>
   example_remote ''carol'' = Yields [''game3''] None \<and>
   export_loop example_remote ([''alice''] @ ''bob'' # [''carol'']) [] [] =
     export_loop example_remote [''carol''] (''game1'' @ [CHR 0x0A] @ ''game2'' @ [CHR 0x0A])
       [progress_line ''alice'', progress_line ''bob'', error_line ''bob'' ''HTTP 429''] \<and>
   raised (export_games (Some ''secret'') example_client [''alice'', ''bob'', ''carol'']
             ''games.pgn'' None) = None \<and>
   console (export_games (Some ''secret'') example_client [''alice'', ''bob'', ''carol'']
              ''games.pgn'' None)
     = [progress_line ''alice'', progress_line ''bob'', error_line ''bob'' ''HTTP 429'',
        progress_line ''carol'', ''Saved PGN to games.pgn''] \<and>
   flaky_remote ''dave'' = Yields [''game4''] (Some ''HTTP 429'') \<and>
   raised (export_games (Some ''secret'') flaky_client ([''alice''] @ ''dave'' # [''carol''])
             ''games.pgn'' None) = Some ''HTTP 429'' \<and>
   console (export_games (Some ''secret'') flaky_client ([''alice''] @ ''dave'' # [''carol''])
              ''games.pgn'' None)
     = [progress_line ''alice'', progress_line ''dave'']"
proof -
  have r: "example_remote ''alice'' = Yields [''game1'', ''game2''] None"
    "example_remote ''bob'' = Raises_ResponseError ''HTTP 429''"
    "example_remote ''carol'' = Yields [''game3''] None"
    by (simp_all add: example_remote_def)
  have fr: "flaky_remote ''alice'' = Yields [''game1'', ''game2''] None"
    "flaky_remote ''dave'' = Yields [''game4''] (Some ''HTTP 429'')"
    by (simp_all add: flaky_remote_def)
  have pre: "\<forall>u \<in> set [''alice'']. aborts (example_remote u) = None"
    by (simp add: r aborts_def)
  have ok: "\<forall>u \<in> set [''alice'', ''bob'', ''carol'']. aborts (example_remote u) = None"
    by (simp add: r aborts_def)
  have fpre: "\<forall>u \<in> set [''alice'']. aborts (flaky_remote u) = None"
    by (simp add: fr aborts_def)
  have fx: "aborts (flaky_remote ''dave'') = Some ''HTTP 429''"
    by (simp add: fr aborts_def)
  have s: "write_lines (streamed example_remote [''alice''])
             = ''game1'' @ [CHR 0x0A] @ ''game2'' @ [CHR 0x0A]"
    by (simp add: streamed_def records_of_def r write_lines_def)
  have l1: "log_lines example_remote [''alice''] = [progress_line ''alice'']"
    by (simp add: log_lines_def r)
  have l3: "log_lines example_remote [''alice'', ''bob'', ''carol'']
     = [progress_line ''alice'', progress_line ''bob'', error_line ''bob'' ''HTTP 429'',
        progress_line ''carol'']"
    by (simp add: log_lines_def r)
  have l4: "log_lines flaky_remote [''alice''] = [progress_line ''alice'']"
    by (simp add: log_lines_def fr)
  note t = failed_fetch_is_skipped
  have a: "export_loop example_remote ([''alice''] @ ''bob'' # [''carol'']) [] [] =
     export_loop example_remote [''carol''] (''game1'' @ [CHR 0x0A] @ ''game2'' @ [CHR 0x0A])
       [progress_line ''alice'', progress_line ''bob'', error_line ''bob'' ''HTTP 429'']"
    using t [of "[''alice'']" example_remote "''bob''" "''HTTP 429''" "[''carol'']" "[]" "[]"]
      pre r s l1
    by simp
  have b: "raised (export_games (Some ''secret'') example_client [''alice'', ''bob'', ''carol'']
             ''games.pgn'' None) = None \<and>
    console (export_games (Some ''secret'') example_client [''alice'', ''bob'', ''carol'']
              ''games.pgn'' None)
     = [progress_line ''alice'', progress_line ''bob'', error_line ''bob'' ''HTTP 429'',
        progress_line ''carol'', ''Saved PGN to games.pgn'']"
    using t [of "[]" example_remote _ _ _ _ _ "Some ''secret''" "''secret''" example_client
        "[''alice'', ''bob'', ''carol'']" "''games.pgn''" None]
      ok l3
    by (simp add: example_client_def)
  have c: "raised (export_games (Some ''secret'') flaky_client ([''alice''] @ ''dave'' # [''carol''])
             ''games.pgn'' None) = Some ''HTTP 429'' \<and>
    console (export_games (Some ''secret'') flaky_client ([''alice''] @ ''dave'' # [''carol''])
              ''games.pgn'' None)
     = [progress_line ''alice'', progress_line ''dave'']"
    using t [of "[''alice'']" flaky_remote "''dave''" "''HTTP 429''" "[''carol'']" _ _
        "Some ''secret''" "''secret''" flaky_client "[]" "''games.pgn''" None]
      fpre fx l4
    by (simp add: flaky_client_def)
  from r fr(2) a b c show ?thesis by simp
qed

text \<open>
  Two runs that a single failing user ends. The fetch of \<open>bob\<close> fails with an exception
  that is no \<open>ResponseError\<close>; the fetch of \<open>dave\<close> is rejected while its stream is
  read. In both runs \<open>carol\<close>, who comes after the failing user, is never attempted.
\<close>

theorem uncaught_fetch_failure_counterexample:
  "flaky_remote ''bob'' = Raises_other ''timed out'' \<and>
   export_games (Some ''secret'') flaky_client [''alice'', ''bob'', ''carol''] ''games.pgn'' None
     = \<lparr>out_file = Some (''game1'' @ [CHR 0x0A] @ ''game2'' @ [CHR 0x0A]),
        console = [progress_line ''alice'', progress_line ''bob''],
        raised = Some ''timed out''\<rparr> \<and>
   flaky_remote ''dave'' = Yields [''game4''] (Some ''HTTP 429'') \<and>
   export_games (Some ''secret'') flaky_client [''dave'', ''carol''] ''games.pgn'' None
     = \<lparr>out_file = Some (''game4'' @ [CHR 0x0A]),
        console = [progress_line ''dave''],
        raised = Some ''HTTP 429''\<rparr>"
  by (simp add: export_games_def flaky_client_def flaky_remote_def write_lines_def)

text \<open>
  C4 (as the code has it). A run that opens the destination file leaves in it exactly the
  records delivered during the run, in the order received, each followed by a line feed:
  all records of all users when no exception ends the run, and the records delivered up to
  the exception otherwise. Whatever the file held before the run does not reach the result,
  since the file is opened in write mode. A run that ends before the file is opened, for
  want of a token or of a client, leaves the file as it was.
\<close>

theorem store_holds_streamed_records:
  "(token = Some tok \<and> tok \<noteq> [] \<and> new_client tok = Inr remote \<and>
      (\<forall>u \<in> set usernames. aborts (remote u) = None) \<longrightarrow>
      out_file (export_games token new_client usernames out_path existing) =
        Some (write_lines (streamed remote usernames))) \<and>
   (token = Some tok \<and> tok \<noteq> [] \<and> new_client tok = Inr remote \<and>
      (\<forall>u \<in> set pre. aborts (remote u) = None) \<and> aborts (remote x) = Some exc \<longrightarrow>
      out_file (export_games token new_client (pre @ x # post) out_path existing) =
        Some (write_lines (streamed remote (pre @ [x])))) \<and>
   (token = None \<or> token = Some [] \<or> (token = Some tok \<and> new_client tok = Inl exc) \<longrightarrow>
      out_file (export_games token new_client usernames out_path existing) = existing)"
proof (intro conjI impI)
  assume "token = Some tok \<and> tok \<noteq> [] \<and> new_client tok = Inr remote \<and>
      (\<forall>u \<in> set usernames. aborts (remote u) = None)"
  then show "out_file (export_games token new_client usernames out_path existing) =
        Some (write_lines (streamed remote usernames))"
    by (simp add: export_games_def Let_def export_loop_all)
next
  assume "token = Some tok \<and> tok \<noteq> [] \<and> new_client tok = Inr remote \<and>
      (\<forall>u \<in> set pre. aborts (remote u) = None) \<and> aborts (remote x) = Some exc"
  then show "out_file (export_games token new_client (pre @ x # post) out_path existing) =
        Some (write_lines (streamed remote (pre @ [x])))"
    by (simp add: export_games_def Let_def export_loop_abort)
next
  assume "token = None \<or> token = Some [] \<or> (token = Some tok \<and> new_client tok = Inl exc)"
  then show "out_file (export_games token new_client usernames out_path existing) = existing"
    by (auto simp: export_games_def)
qed

theorem store_holds_streamed_records_witness:
  "example_remote ''alice'' = Yields [''game1'', ''game2''] None \<and>
   example_remote ''bob'' = Raises_ResponseError ''HTTP 429'' \<and>
   example_remote ''carol'' = Yields [''game3''] None \<and>
   out_file (export_games (Some ''secret'') example_client [''alice'', ''bob'', ''carol'']
               ''games.pgn'' (Some (''game0'' @ [CHR 0x0A])))
     = Some (''game1'' @ [CHR 0x0A] @ ''game2'' @ [CHR 0x0A] @ ''game3'' @ [CHR 0x0A]) \<and>
   flaky_remote ''dave'' = Yields [''game4''] (Some ''HTTP 429'') \<and>
   out_file (export_games (Some ''secret'') flaky_client ([''alice''] @ ''dave'' # [''carol''])
               ''games.pgn'' (Some (''game0'' @ [CHR 0x0A])))
     = Some (''game1'' @ [CHR 0x0A] @ ''game2'' @ [CHR 0x0A] @ ''game4'' @ [CHR 0x0A]) \<and>
   broken_client ''secret'' = Inl ''TypeError'' \<and>
   out_file (export_games (Some ''secret'') broken_client [''alice''] ''games.pgn''
               (Some (''game0'' @ [CHR 0x0A])))
     = Some (''game0'' @ [CHR 0x0A]) \<and>
   out_file (export_games None example_client [''alice''] ''games.pgn''
               (Some (''game0'' @ [CHR 0x0A])))
     = Some (''game0'' @ [CHR 0x0A])"
proof -
  have r: "example_remote ''alice'' = Yields [''game1'', ''game2''] None"
    "example_remote ''bob'' = Raises_ResponseError ''HTTP 429''"
    "example_remote ''carol'' = Yields [''game3''] None"
    by (simp_all add: example_remote_def)
  have fr: "flaky_remote ''alice'' = Yields [''game1'', ''game2''] None"
    "flaky_remote ''dave'' = Yields [''game4''] (Some ''HTTP 429'')"
    by (simp_all add: flaky_remote_def)
  have ok: "\<forall>u \<in> set [''alice'', ''bob'', ''carol'']. aborts (example_remote u) = None"
    by (simp add: r aborts_def)
  have fpre: "\<forall>u \<in> set [''alice'']. aborts (flaky_remote u) = None"
    by (simp add: fr aborts_def)
  have fx: "aborts (flaky_remote ''dave'') = Some ''HTTP 429''"
    by (simp add: fr aborts_def)
  have s: "write_lines (streamed example_remote [''alice'', ''bob'', ''carol''])
             = ''game1'' @ [CHR 0x0A] @ ''game2'' @ [CHR 0x0A] @ ''game3'' @ [CHR 0x0A]"
    by (simp add: streamed_def records_of_def r write_lines_def)
  have s2: "write_lines (streamed flaky_remote ([''alice''] @ [''dave'']))
             = ''game1'' @ [CHR 0x0A] @ ''game2'' @ [CHR 0x0A] @ ''game4'' @ [CHR 0x0A]"
    by (simp add: streamed_def records_of_def fr write_lines_def)
  have bc: "broken_client ''secret'' = Inl ''TypeError''"
    by (simp add: broken_client_def)
  note t = store_holds_streamed_records
  have a: "out_file (export_games (Some ''secret'') example_client [''alice'', ''bob'', ''carol'']
               ''games.pgn'' (Some (''game0'' @ [CHR 0x0A])))
     = Some (''game1'' @ [CHR 0x0A] @ ''game2'' @ [CHR 0x0A] @ ''game3'' @ [CHR 0x0A])"
    using t [of "Some ''secret''" "''secret''" example_client example_remote
        "[''alice'', ''bob'', ''carol'']" "''games.pgn''" "Some (''game0'' @ [CHR 0x0A])"] ok s
    by (simp add: example_client_def)
  have b: "out_file (export_games (Some ''secret'') flaky_client ([''alice''] @ ''dave'' # [''carol''])
               ''games.pgn'' (Some (''game0'' @ [CHR 0x0A])))
     = Some (''game1'' @ [CHR 0x0A] @ ''game2'' @ [CHR 0x0A] @ ''game4'' @ [CHR 0x0A])"
    using t [of "Some ''secret''" "''secret''" flaky_client flaky_remote "[]" "''games.pgn''"
        "Some (''game0'' @ [CHR 0x0A])" "[''alice'']" "''dave''" "''HTTP 429''" "[''carol'']"]
      fpre fx s2
    by (simp add: flaky_client_def)
  have c: "out_file (export_games (Some ''secret'') broken_client [''alice''] ''games.pgn''
               (Some (''game0'' @ [CHR 0x0A])))
     = Some (''game0'' @ [CHR 0x0A])"
    using t [where token = "Some ''secret''" and tok = "''secret''" and new_client = broken_client
        and usernames = "[''alice'']" and out_path = "''games.pgn''"
        and existing = "Some (''game0'' @ [CHR 0x0A])" and exc = "''TypeError''"] bc
    by simp
  have d: "out_file (export_games None example_client [''alice''] ''games.pgn''
               (Some (''game0'' @ [CHR 0x0A])))
     = Some (''game0'' @ [CHR 0x0A])"
    using t [where token = None and new_client = example_client
        and usernames = "[''alice'']" and out_path = "''games.pgn''"
        and existing = "Some (''game0'' @ [CHR 0x0A])"]
    by simp
  from r fr(2) a b bc c d show ?thesis by simp
qed

text \<open>
  A destination file that holds the record \<open>game0\<close> before the run holds only the
  record of this run afterwards.
\<close>

theorem store_truncated_counterexample:
  "example_client ''secret'' = Inr example_remote \<and>
   out_file (export_games (Some ''secret'') example_client [''carol''] ''games.pgn''
              (Some (''game0'' @ [CHR 0x0A])))
     = Some (''game3'' @ [CHR 0x0A]) \<and>
   out_file (export_games (Some ''secret'') example_client [''carol''] ''games.pgn''
              (Some (''game0'' @ [CHR 0x0A])))
     \<noteq> Some (''game0'' @ [CHR 0x0A] @ ''game3'' @ [CHR 0x0A])"
  by (simp add: export_games_def example_client_def example_remote_def write_lines_def)

end
